theory Spec2Isabelle
  imports Main "HOL-Library.Word"
begin

section \<open>JavaScript strings\<close>

text \<open>
  A JavaScript string is a sequence of 16-bit code units (UTF-16). The file name
  \<open>filePath\<close>, the blob name and the decoded names are such strings. Metadata keys and
  the base64 token travel in HTTP headers and are modelled as single-byte \<open>string\<close>s.
\<close>

type_synonym jsstring = "16 word list"

definition js :: "string \<Rightarrow> jsstring" where
  "js s = map (\<lambda>c. of_nat (of_char c)) s"

definition is_high :: "nat \<Rightarrow> bool" where
  "is_high u = (0xD800 \<le> u \<and> u \<le> 0xDBFF)"

definition is_low :: "nat \<Rightarrow> bool" where
  "is_low u = (0xDC00 \<le> u \<and> u \<le> 0xDFFF)"

text \<open>
  \<open>String.prototype.isWellFormed\<close>: no unpaired surrogate. These are the strings that
  denote a sequence of Unicode scalar values.
\<close>

fun well_formed_units :: "nat list \<Rightarrow> bool" where
  "well_formed_units [] = True"
| "well_formed_units [u] = (\<not> is_high u \<and> \<not> is_low u)"
| "well_formed_units (u # v # us) =
     (if is_high u then is_low v \<and> well_formed_units us
      else \<not> is_low u \<and> well_formed_units (v # us))"

definition isWellFormed :: "jsstring \<Rightarrow> bool" where
  "isWellFormed s = well_formed_units (map unat s)"

section \<open>\<open>Buffer.from(string)\<close>: UTF-8 encoding\<close>

text \<open>
  Code units are read as code points; \<open>None\<close> marks an unpaired surrogate.
\<close>

fun utf16_decode :: "nat list \<Rightarrow> nat option list" where
  "utf16_decode [] = []"
| "utf16_decode [u] = [if is_high u \<or> is_low u then None else Some u]"
| "utf16_decode (u # v # us) =
     (if is_high u \<and> is_low v
      then Some (0x10000 + (u - 0xD800) * 0x400 + (v - 0xDC00)) # utf16_decode us
      else (if is_high u \<or> is_low u then None else Some u) # utf16_decode (v # us))"

definition utf8_encode_cp :: "nat \<Rightarrow> nat list" where
  "utf8_encode_cp c =
     (if c < 0x80 then [c]
      else if c < 0x800 then [0xC0 + c div 64, 0x80 + c mod 64]
      else if c < 0x10000 then [0xE0 + c div 4096, 0x80 + c div 64 mod 64, 0x80 + c mod 64]
      else [0xF0 + c div 262144, 0x80 + c div 4096 mod 64, 0x80 + c div 64 mod 64,
            0x80 + c mod 64])"

text \<open>\<open>Buffer.from(s)\<close> writes U+FFFD for an unpaired surrogate; it never throws.\<close>

definition replace_invalid :: "nat option \<Rightarrow> nat" where
  "replace_invalid p = (case p of None \<Rightarrow> 0xFFFD | Some c \<Rightarrow> c)"

definition Buffer_from :: "jsstring \<Rightarrow> nat list" where
  "Buffer_from s = concat (map (utf8_encode_cp \<circ> replace_invalid) (utf16_decode (map unat s)))"

section \<open>\<open>buf.toString()\<close>: UTF-8 decoding\<close>

text \<open>
  The decoder of the runtime: a well-formed sequence yields its code point, every maximal
  ill-formed prefix yields U+FFFD, and the byte that ended it is read again. The
  arguments are the code point so far, the continuation bytes still needed and the
  bounds of the next continuation byte.
\<close>

function utf8_run :: "nat \<Rightarrow> nat \<Rightarrow> nat \<Rightarrow> nat \<Rightarrow> nat list \<Rightarrow> nat list" where
  "utf8_run cp need lo hi [] = (if need = 0 then [] else [0xFFFD])"
| "utf8_run cp need lo hi (b # bs) =
     (if need = 0 then
        (if b < 0x80 then b # utf8_run 0 0 0x80 0xBF bs
         else if 0xC2 \<le> b \<and> b \<le> 0xDF then utf8_run (b mod 32) 1 0x80 0xBF bs
         else if 0xE0 \<le> b \<and> b \<le> 0xEF then
           utf8_run (b mod 16) 2 (if b = 0xE0 then 0xA0 else 0x80)
             (if b = 0xED then 0x9F else 0xBF) bs
         else if 0xF0 \<le> b \<and> b \<le> 0xF4 then
           utf8_run (b mod 8) 3 (if b = 0xF0 then 0x90 else 0x80)
             (if b = 0xF4 then 0x8F else 0xBF) bs
         else 0xFFFD # utf8_run 0 0 0x80 0xBF bs)
      else if b < lo \<or> hi < b then 0xFFFD # utf8_run 0 0 0x80 0xBF (b # bs)
      else if need = 1 then (cp * 64 + b mod 64) # utf8_run 0 0 0x80 0xBF bs
      else utf8_run (cp * 64 + b mod 64) (need - 1) 0x80 0xBF bs)"
  by pat_completeness auto
termination
  by (relation "measure (\<lambda>(cp, need, lo, hi, bs). 2 * length bs + (if need = 0 then 0 else 1))")
     auto

definition utf8_decode :: "nat list \<Rightarrow> nat list" where
  "utf8_decode bs = utf8_run 0 0 0x80 0xBF bs"

definition utf16_encode_cp :: "nat \<Rightarrow> nat list" where
  "utf16_encode_cp c =
     (if c < 0x10000 then [c]
      else [0xD800 + (c - 0x10000) div 0x400, 0xDC00 + (c - 0x10000) mod 0x400])"

definition Buffer_toString :: "nat list \<Rightarrow> jsstring" where
  "Buffer_toString bs = map of_nat (concat (map utf16_encode_cp (utf8_decode bs)))"

section \<open>Base64\<close>

text \<open>\<open>buf.toString('base64')\<close>: the standard alphabet, padded with \<open>=\<close>.\<close>

definition b64_char :: "nat \<Rightarrow> char" where
  "b64_char n =
     (if n < 26 then char_of (65 + n)
      else if n < 52 then char_of (71 + n)
      else if n < 62 then char_of (n - 4)
      else if n = 62 then CHR ''+'' else CHR ''/'')"

fun base64_encode :: "nat list \<Rightarrow> string" where
  "base64_encode [] = []"
| "base64_encode [a] =
     [b64_char (a div 4), b64_char (a mod 4 * 16), CHR ''='', CHR ''='']"
| "base64_encode [a, b] =
     [b64_char (a div 4), b64_char (a mod 4 * 16 + b div 16), b64_char (b mod 16 * 4),
      CHR ''='']"
| "base64_encode (a # b # c # rest) =
     [b64_char (a div 4), b64_char (a mod 4 * 16 + b div 16),
      b64_char (b mod 16 * 4 + c div 64), b64_char (c mod 64)] @ base64_encode rest"

text \<open>
  \<open>Buffer.from(token, 'base64')\<close> is lenient: it accepts the standard and the URL-safe
  alphabet, skips every other character, stops at the first \<open>=\<close> and drops an
  incomplete last group. It never throws on a string.
\<close>

definition unbase64 :: "char \<Rightarrow> nat option" where
  "unbase64 c =
     (let k = (of_char c :: nat) in
      if 65 \<le> k \<and> k \<le> 90 then Some (k - 65)
      else if 97 \<le> k \<and> k \<le> 122 then Some (k - 71)
      else if 48 \<le> k \<and> k \<le> 57 then Some (k + 4)
      else if c = CHR ''+'' \<or> c = CHR ''-'' then Some 62
      else if c = CHR ''/'' \<or> c = CHR ''_'' then Some 63
      else None)"

fun b64_sextets :: "string \<Rightarrow> nat list" where
  "b64_sextets [] = []"
| "b64_sextets (c # cs) =
     (if c = CHR ''='' then []
      else case unbase64 c of None \<Rightarrow> b64_sextets cs | Some v \<Rightarrow> v # b64_sextets cs)"

fun b64_bytes :: "nat list \<Rightarrow> nat list" where
  "b64_bytes (p # q # r # s # rest) =
     [(p * 4 + q div 16) mod 256, (q mod 16 * 16 + r div 4) mod 256, (r mod 4 * 64 + s) mod 256]
       @ b64_bytes rest"
| "b64_bytes [p, q, r] = [(p * 4 + q div 16) mod 256, (q mod 16 * 16 + r div 4) mod 256]"
| "b64_bytes [p, q] = [(p * 4 + q div 16) mod 256]"
| "b64_bytes _ = []"

definition base64_decode :: "string \<Rightarrow> nat list" where
  "base64_decode t = b64_bytes (b64_sextets t)"

section \<open>The filename codec\<close>

text \<open>
  \<open>encode\<close> is \<open>Buffer.from(filePath).toString('base64')\<close> of \<open>uploadFileToBlob\<close>;
  \<open>decode\<close> is \<open>Buffer.from(token, 'base64').toString()\<close> of \<open>uploadFileToBlob\<close>,
  \<open>getOriginalFileName\<close> and \<open>listBlobs\<close>.
\<close>

definition encode :: "jsstring \<Rightarrow> string" where
  "encode filePath = base64_encode (Buffer_from filePath)"

definition decode :: "string \<Rightarrow> jsstring" where
  "decode token = Buffer_toString (base64_decode token)"

text \<open>
  \<open>String.prototype.toWellFormed\<close>: every unpaired surrogate becomes U+FFFD. It is what
  a string turns into on its way through \<open>encode\<close> and \<open>decode\<close>.
\<close>

fun to_well_formed_units :: "nat list \<Rightarrow> nat list" where
  "to_well_formed_units [] = []"
| "to_well_formed_units [u] = [if is_high u \<or> is_low u then 0xFFFD else u]"
| "to_well_formed_units (u # v # us) =
     (if is_high u \<and> is_low v then u # v # to_well_formed_units us
      else (if is_high u \<or> is_low u then 0xFFFD else u) # to_well_formed_units (v # us))"

definition toWellFormed :: "jsstring \<Rightarrow> jsstring" where
  "toWellFormed s = map of_nat (to_well_formed_units (map unat s))"

definition scalar :: "nat \<Rightarrow> bool" where
  "scalar c = (c < 0x110000 \<and> \<not> is_high c \<and> \<not> is_low c)"

text \<open>The alphabet of the token: \<open>A-Z\<close>, \<open>a-z\<close>, \<open>0-9\<close>, \<open>+\<close>, \<open>/\<close> and the padding \<open>=\<close>.\<close>

definition base64_alphabet :: "char \<Rightarrow> bool" where
  "base64_alphabet c =
     (let k = (of_char c :: nat) in
      (65 \<le> k \<and> k \<le> 90) \<or> (97 \<le> k \<and> k \<le> 122) \<or> (48 \<le> k \<and> k \<le> 57)
      \<or> c = CHR ''+'' \<or> c = CHR ''/'' \<or> c = CHR ''='')"

section \<open>Errors and the environment\<close>

text \<open>
  The service raises nothing of its own: an error is either the rejection of a storage
  call, passed on unchanged, or the \<open>URIError\<close> of \<open>encodeURIComponent\<close>.
\<close>

datatype error = RestError string | URIError

text \<open>
  The clock and the random number generator are inputs: \<open>now\<close> is
  \<open>new Date().getTime()\<close>, \<open>random36\<close> is \<open>Math.random().toString(36)\<close> and \<open>isoNow\<close> is
  \<open>new Date().toISOString()\<close>.
\<close>

record env =
  now :: int
  random36 :: jsstring
  isoNow :: string

section \<open>String operations of the key derivation\<close>

definition dot :: "16 word" where
  "dot = 0x2E"

text \<open>\<open>/[^\x00-\x7F]/.test(filePath)\<close>: some code unit lies above \<open>0x7F\<close>.\<close>

definition hasNonAsciiChars :: "jsstring \<Rightarrow> bool" where
  "hasNonAsciiChars filePath = list_ex (\<lambda>u. 0x7F < unat u) filePath"

definition includes_unit :: "jsstring \<Rightarrow> 16 word \<Rightarrow> bool" where
  "includes_unit s c = (c \<in> set s)"

text \<open>\<open>lastIndexOf\<close> searches backwards from the end and answers \<open>-1\<close> when nothing matches.\<close>

fun first_index :: "'a list \<Rightarrow> 'a \<Rightarrow> nat option" where
  "first_index [] c = None"
| "first_index (x # xs) c = (if x = c then Some 0 else map_option Suc (first_index xs c))"

definition lastIndexOf :: "jsstring \<Rightarrow> 16 word \<Rightarrow> int" where
  "lastIndexOf s c =
     (case first_index (rev s) c of None \<Rightarrow> - 1 | Some k \<Rightarrow> int (length s) - 1 - int k)"

text \<open>\<open>substring(start)\<close> and \<open>substring(start, end)\<close> clamp their indices to the string.\<close>

definition substring_from :: "jsstring \<Rightarrow> int \<Rightarrow> jsstring" where
  "substring_from s i = drop (nat i) s"

definition substring :: "jsstring \<Rightarrow> int \<Rightarrow> int \<Rightarrow> jsstring" where
  "substring s i j =
     (let a = min (nat i) (length s); b = min (nat j) (length s)
      in take (max a b - min a b) (drop (min a b) s))"

text \<open>The decimal form of an integer, as a template literal prints the time value.\<close>

function show_nat :: "nat \<Rightarrow> jsstring" where
  "show_nat n =
     (if n < 10 then [of_nat (48 + n)] else show_nat (n div 10) @ [of_nat (48 + n mod 10)])"
  by pat_completeness auto
termination
  by (relation "measure id") auto

declare show_nat.simps [simp del]

definition show_int :: "int \<Rightarrow> jsstring" where
  "show_int i = (if i < 0 then 0x2D # show_nat (nat (- i)) else show_nat (nat i))"

section \<open>Storage key derivation\<close>

definition randomId :: "env \<Rightarrow> jsstring" where
  "randomId e = substring (random36 e) 2 15"

definition extension :: "jsstring \<Rightarrow> jsstring" where
  "extension filePath =
     (if includes_unit filePath dot then substring_from filePath (lastIndexOf filePath dot)
      else [])"

text \<open>Lines 57 to 67 of \<open>uploadFileToBlob\<close>.\<close>

definition safeBlobName :: "env \<Rightarrow> jsstring \<Rightarrow> jsstring" where
  "safeBlobName e filePath =
     (if hasNonAsciiChars filePath
      then js ''file-'' @ show_int (now e) @ js ''-'' @ randomId e @ extension filePath
      else filePath)"

text \<open>
  The extension as the specification words it: the part of the name from its last dot
  on, and nothing when the name has no dot.
\<close>

fun spec_extension :: "jsstring \<Rightarrow> jsstring" where
  "spec_extension [] = []"
| "spec_extension (u # us) =
     (if dot \<in> set us then spec_extension us else if u = dot then u # us else [])"

section \<open>\<open>encodeURIComponent\<close>\<close>

definition uri_unreserved :: "nat \<Rightarrow> bool" where
  "uri_unreserved c =
     ((65 \<le> c \<and> c \<le> 90) \<or> (97 \<le> c \<and> c \<le> 122) \<or> (48 \<le> c \<and> c \<le> 57)
      \<or> c \<in> {0x2D, 0x5F, 0x2E, 0x21, 0x7E, 0x2A, 0x27, 0x28, 0x29})"

definition hex_digit :: "nat \<Rightarrow> char" where
  "hex_digit d = (if d < 10 then char_of (48 + d) else char_of (55 + d))"

definition percent_byte :: "nat \<Rightarrow> string" where
  "percent_byte b = [CHR ''%'', hex_digit (b div 16), hex_digit (b mod 16)]"

definition uri_escape :: "nat \<Rightarrow> string" where
  "uri_escape c =
     (if uri_unreserved c then [char_of c] else concat (map percent_byte (utf8_encode_cp c)))"

text \<open>An unpaired surrogate makes \<open>encodeURIComponent\<close> throw.\<close>

fun uri_component :: "nat option list \<Rightarrow> error + string" where
  "uri_component [] = Inr []"
| "uri_component (None # ps) = Inl URIError"
| "uri_component (Some c # ps) =
     (case uri_component ps of Inl e \<Rightarrow> Inl e | Inr t \<Rightarrow> Inr (uri_escape c @ t))"

definition encodeURIComponent :: "jsstring \<Rightarrow> error + string" where
  "encodeURIComponent s = uri_component (utf16_decode (map unat s))"

section \<open>The Blob Store\<close>

text \<open>
  A metadata object is a list of key and value pairs; \<open>metadata.k\<close> is \<open>map_of metadata k\<close>
  and an absent property is \<open>None\<close>.
\<close>

type_synonym metadata = "(string \<times> string) list"

text \<open>
  The storage client is an external collaborator over a store \<open>'st\<close>. \<open>sdk_url\<close> is
  \<open>blockBlobClient.url\<close>, \<open>sdk_upload\<close> is \<open>blockBlobClient.upload\<close> with its body, content
  type and metadata, \<open>sdk_getProperties\<close> is the \<open>metadata\<close> field of
  \<open>blockBlobClient.getProperties()\<close> (which may be undefined) and \<open>sdk_listBlobsFlat\<close>
  is the enumeration of \<open>containerClient.listBlobsFlat()\<close>. A rejected call is \<open>Inl\<close>.
\<close>

record 'st sdk =
  sdk_url :: "jsstring \<Rightarrow> jsstring"
  sdk_upload :: "'st \<Rightarrow> jsstring \<Rightarrow> nat list \<Rightarrow> jsstring \<Rightarrow> metadata \<Rightarrow> error + 'st"
  sdk_getProperties :: "'st \<Rightarrow> jsstring \<Rightarrow> error + metadata option"
  sdk_listBlobsFlat :: "'st \<Rightarrow> error + jsstring list"

text \<open>
  A JavaScript value is truthy in \<open>a && b\<close> and \<open>a || b\<close> unless it is \<open>null\<close>,
  \<open>undefined\<close> or the empty string.
\<close>

definition truthy :: "'a list option \<Rightarrow> bool" where
  "truthy v = (case v of None \<Rightarrow> False | Some s \<Rightarrow> s \<noteq> [])"

definition property :: "metadata option \<Rightarrow> string \<Rightarrow> string option" where
  "property metadata k = (case metadata of None \<Rightarrow> None | Some m \<Rightarrow> map_of m k)"

section \<open>\<open>uploadFileToBlob\<close>\<close>

record upload_result =
  res_url :: jsstring
  res_originalName :: jsstring
  res_decodedName :: jsstring
  res_blobName :: jsstring

text \<open>
  The function returns the store as the calls left it, and either the error it rethrows
  or its result. Logging is left out.
\<close>

definition uploadFileToBlob ::
  "'st sdk \<Rightarrow> env \<Rightarrow> 'st \<Rightarrow> jsstring \<Rightarrow> nat list \<Rightarrow> jsstring \<Rightarrow> 'st \<times> (error + upload_result)"
where
  "uploadFileToBlob c e st filePath fileBuffer contentType =
     (let blobName = safeBlobName e filePath;
          originalFilenameEncoded = encode filePath
      in case encodeURIComponent filePath of
           Inl err \<Rightarrow> (st, Inl err)
         | Inr originalNameUtf8 \<Rightarrow>
             (let metadata = [(''originalFilename'', originalFilenameEncoded),
                              (''originalNameUtf8'', originalNameUtf8),
                              (''dateUploaded'', isoNow e)]
              in case sdk_upload c st blobName fileBuffer contentType metadata of
                   Inl err \<Rightarrow> (st, Inl err)
                 | Inr st' \<Rightarrow>
                     (case sdk_getProperties c st' blobName of
                        Inl err \<Rightarrow> (st', Inl err)
                      | Inr properties \<Rightarrow>
                          (st', Inr \<lparr>res_url = sdk_url c blobName,
                                      res_originalName = filePath,
                                      res_decodedName = decode originalFilenameEncoded,
                                      res_blobName = blobName\<rparr>))))"

section \<open>Reading names back\<close>

definition getBlobMetadata :: "'st sdk \<Rightarrow> 'st \<Rightarrow> jsstring \<Rightarrow> error + metadata option" where
  "getBlobMetadata c st blobName = sdk_getProperties c st blobName"

text \<open>\<open>getOriginalFileName\<close> answers \<open>null\<close> (\<open>None\<close>) from its \<open>catch\<close> block.\<close>

definition getOriginalFileName :: "'st sdk \<Rightarrow> 'st \<Rightarrow> jsstring \<Rightarrow> jsstring option" where
  "getOriginalFileName c st blobName =
     (case getBlobMetadata c st blobName of
        Inl err \<Rightarrow> None
      | Inr metadata \<Rightarrow>
          (if truthy (property metadata ''originalFilename'')
           then map_option decode (property metadata ''originalFilename'')
           else None))"

record listing_entry =
  entry_name :: jsstring
  entry_url :: jsstring
  originalName :: "string option"
  decodedName :: "jsstring option"

text \<open>
  One round of the loop of \<open>listBlobs\<close>. The metadata is read outside the \<open>try\<close>, so a
  rejected read ends the whole call; the decoding inside the \<open>try\<close> cannot throw.
\<close>

definition list_entry :: "'st sdk \<Rightarrow> 'st \<Rightarrow> jsstring \<Rightarrow> error + listing_entry" where
  "list_entry c st blobName =
     (case getBlobMetadata c st blobName of
        Inl err \<Rightarrow> Inl err
      | Inr metadata \<Rightarrow>
          Inr (if truthy (property metadata ''originalfilename'')
               then \<lparr>entry_name = blobName, entry_url = sdk_url c blobName,
                     originalName = property metadata ''originalfilename'',
                     decodedName = map_option decode (property metadata ''originalfilename'')\<rparr>
               else \<lparr>entry_name = blobName, entry_url = sdk_url c blobName,
                     originalName = None, decodedName = None\<rparr>))"

fun listBlobs_loop ::
  "'st sdk \<Rightarrow> 'st \<Rightarrow> jsstring list \<Rightarrow> listing_entry list \<Rightarrow> error + listing_entry list"
where
  "listBlobs_loop c st [] blobs = Inr blobs"
| "listBlobs_loop c st (blobName # rest) blobs =
     (case list_entry c st blobName of
        Inl err \<Rightarrow> Inl err
      | Inr entry \<Rightarrow> listBlobs_loop c st rest (blobs @ [entry]))"

definition listBlobs :: "'st sdk \<Rightarrow> 'st \<Rightarrow> error + listing_entry list" where
  "listBlobs c st =
     (case sdk_listBlobsFlat c st of
        Inl err \<Rightarrow> Inl err
      | Inr names \<Rightarrow> listBlobs_loop c st names [])"

text \<open>
  The name the file list of the front end shows:
  \<open>file.originalName || file.decodedName || file.name\<close>.
\<close>

definition displayed_name :: "listing_entry \<Rightarrow> jsstring" where
  "displayed_name file =
     (if truthy (originalName file) then (case originalName file of Some t \<Rightarrow> js t | None \<Rightarrow> [])
      else if truthy (decodedName file)
        then (case decodedName file of Some d \<Rightarrow> d | None \<Rightarrow> [])
      else entry_name file)"

section \<open>An in-memory Blob Store\<close>

text \<open>
  A container that keeps its blobs in upload order; an upload replaces the blob of the
  same name. \<open>view\<close> is what a later read reports of the metadata an upload wrote. The
  storage client reads metadata from response headers and reports every key in lower
  case: that store is \<open>memory_sdk lower_case_keys\<close>. \<open>memory_sdk Some\<close> is a store that
  hands the keys back exactly as written.
\<close>

text \<open>
  The URL of a blob ends in its name, percent-encoded segment by segment: \<open>/\<close> is kept
  and every other character goes through \<open>encodeURIComponent\<close>.
\<close>

definition escape_path_cp :: "nat \<Rightarrow> string" where
  "escape_path_cp c = (if c = 0x2F then ''/'' else uri_escape c)"

definition EscapePath :: "jsstring \<Rightarrow> jsstring" where
  "EscapePath blobName =
     js (concat (map (escape_path_cp \<circ> replace_invalid) (utf16_decode (map unat blobName))))"

record blob =
  blob_name :: jsstring
  blob_body :: "nat list"
  blob_contentType :: jsstring
  blob_metadata :: metadata

definition memory_sdk :: "(metadata \<Rightarrow> metadata option) \<Rightarrow> blob list sdk" where
  "memory_sdk view =
     \<lparr>sdk_url = (\<lambda>n. js ''https://store/rag-container/'' @ EscapePath n),
      sdk_upload = (\<lambda>st n body ct md.
         Inr (filter (\<lambda>b. blob_name b \<noteq> n) st
              @ [\<lparr>blob_name = n, blob_body = body, blob_contentType = ct,
                   blob_metadata = md\<rparr>])),
      sdk_getProperties = (\<lambda>st n.
         case find (\<lambda>b. blob_name b = n) st of
           None \<Rightarrow> Inl (RestError ''BlobNotFound'')
         | Some b \<Rightarrow> Inr (view (blob_metadata b))),
      sdk_listBlobsFlat = (\<lambda>st. Inr (map blob_name st))\<rparr>"

text \<open>A store that reports no metadata back: \<open>properties.metadata\<close> is undefined.\<close>

definition no_metadata :: "metadata \<Rightarrow> metadata option" where
  "no_metadata md = None"

text \<open>
  The storage client: metadata keys are reported in lower case, as they arrive in the
  response headers.
\<close>

definition lower_char :: "char \<Rightarrow> char" where
  "lower_char c =
     (let k = (of_char c :: nat) in if 65 \<le> k \<and> k \<le> 90 then char_of (k + 32) else c)"

definition lower_case_keys :: "metadata \<Rightarrow> metadata option" where
  "lower_case_keys md = Some (map (\<lambda>(k, v). (map lower_char k, v)) md)"

section \<open>Base64 round trip\<close>

lemma unbase64_b64_char: "n < 64 \<Longrightarrow> unbase64 (b64_char n) = Some n"
  unfolding unbase64_def b64_char_def Let_def
  by (auto simp: of_char_of)

lemma b64_char_not_pad: "n < 64 \<Longrightarrow> b64_char n \<noteq> CHR ''=''"
proof
  assume n: "n < 64" and "b64_char n = CHR ''=''"
  then have "unbase64 (CHR ''='') = Some n" using unbase64_b64_char [OF n] by simp
  then show False by (simp add: unbase64_def)
qed

lemma b64_sextets_char: "n < 64 \<Longrightarrow> b64_sextets (b64_char n # cs) = n # b64_sextets cs"
  by (simp add: unbase64_b64_char b64_char_not_pad)

lemma b64_sextets_pad: "b64_sextets (CHR ''='' # cs) = []"
  by simp

lemma sextet_bound_first: "a < 256 \<Longrightarrow> a div 4 < (64::nat)"
  by simp

lemma sextet_bound_second: "b < 256 \<Longrightarrow> a mod 4 * 16 + b div 16 < (64::nat)"
proof -
  assume "b < 256"
  then have "b div 16 < 16" by simp
  moreover have "a mod 4 < 4" by simp
  ultimately show ?thesis by linarith
qed

lemma sextet_bound_third: "c < 256 \<Longrightarrow> b mod 16 * 4 + c div 64 < (64::nat)"
proof -
  assume "c < 256"
  then have "c div 64 < 4" by simp
  moreover have "b mod 16 < 16" by simp
  ultimately show ?thesis by linarith
qed

lemma sextet_bound_rest: "a mod 4 * 16 < (64::nat)" "b mod 16 * 4 < (64::nat)" "c mod 64 < (64::nat)"
  by simp_all

lemma first_byte_of_sextets:
  assumes "a < 256" "b < (256::nat)"
  shows "(a div 4 * 4 + (a mod 4 * 16 + b div 16) div 16) mod 256 = a"
proof -
  have "b div 16 < 16" using assms by simp
  then have "(a mod 4 * 16 + b div 16) div 16 = a mod 4" by simp
  then show ?thesis using assms by (simp add: div_mult_mod_eq)
qed

lemma second_byte_of_sextets:
  assumes "b < 256" "c < (256::nat)"
  shows "((a mod 4 * 16 + b div 16) mod 16 * 16 + (b mod 16 * 4 + c div 64) div 4) mod 256 = b"
proof -
  have "b div 16 < 16" using assms by simp
  then have 1: "(a mod 4 * 16 + b div 16) mod 16 = b div 16" by simp
  have "c div 64 < 4" using assms by simp
  then have 2: "(b mod 16 * 4 + c div 64) div 4 = b mod 16" by simp
  show ?thesis using assms by (simp add: 1 2 div_mult_mod_eq)
qed

lemma third_byte_of_sextets:
  assumes "c < (256::nat)"
  shows "((b mod 16 * 4 + c div 64) mod 4 * 64 + c mod 64) mod 256 = c"
proof -
  have "c div 64 < 4" using assms by simp
  then have 1: "(b mod 16 * 4 + c div 64) mod 4 = c div 64" by simp
  show ?thesis using assms by (simp add: 1 div_mult_mod_eq)
qed

lemma second_byte_of_padded:
  assumes "b < (256::nat)"
  shows "((a mod 4 * 16 + b div 16) mod 16 * 16 + (b mod 16 * 4) div 4) mod 256 = b"
proof -
  have "b div 16 < 16" using assms by simp
  then have 1: "(a mod 4 * 16 + b div 16) mod 16 = b div 16" by simp
  show ?thesis using assms by (simp add: 1 div_mult_mod_eq)
qed

lemma first_byte_of_padded:
  assumes "a < (256::nat)"
  shows "(a div 4 * 4 + (a mod 4 * 16) div 16) mod 256 = a"
  using assms by (simp add: div_mult_mod_eq)

lemma base64_roundtrip:
  "list_all (\<lambda>b. b < 256) bs \<Longrightarrow> base64_decode (base64_encode bs) = bs"
  unfolding base64_decode_def
proof (induction bs rule: base64_encode.induct)
  case 1
  then show ?case by simp
next
  case (2 a)
  then have a: "a < 256" by simp
  show ?case
    by (simp only: base64_encode.simps b64_sextets_char sextet_bound_first [OF a] sextet_bound_rest b64_sextets_pad
        b64_bytes.simps first_byte_of_padded [OF a])
next
  case (3 a b)
  then have a: "a < 256" and b: "b < 256" by simp_all
  show ?case
    by (simp only: base64_encode.simps b64_sextets_char sextet_bound_first [OF a] sextet_bound_second [OF b] sextet_bound_rest
        b64_sextets_pad b64_bytes.simps first_byte_of_sextets [OF a b] second_byte_of_padded [OF b])
next
  case (4 a b c rest)
  then have a: "a < 256" and b: "b < 256" and c: "c < 256"
    and r: "list_all (\<lambda>b. b < 256) rest"
    by simp_all
  show ?case
    using 4(1) [OF r]
    by (simp only: base64_encode.simps b64_sextets_char sextet_bound_first [OF a] sextet_bound_second [OF b] sextet_bound_third [OF c] sextet_bound_rest
        b64_bytes.simps first_byte_of_sextets [OF a b] second_byte_of_sextets [OF b c] third_byte_of_sextets [OF c] append.simps)
qed

section \<open>UTF-8 round trip\<close>

lemma run_ascii: "b < 0x80 \<Longrightarrow> utf8_run cp 0 lo hi (b # bs) = b # utf8_run 0 0 0x80 0xBF bs"
  by simp

lemma run_lead2:
  "0xC2 \<le> b \<Longrightarrow> b \<le> 0xDF \<Longrightarrow> utf8_run cp 0 lo hi (b # bs) = utf8_run (b mod 32) 1 0x80 0xBF bs"
  by simp

lemma run_lead3:
  "0xE0 \<le> b \<Longrightarrow> b \<le> 0xEF \<Longrightarrow>
   utf8_run cp 0 lo hi (b # bs) =
     utf8_run (b mod 16) 2 (if b = 0xE0 then 0xA0 else 0x80) (if b = 0xED then 0x9F else 0xBF) bs"
  by simp

lemma run_lead4:
  "0xF0 \<le> b \<Longrightarrow> b \<le> 0xF4 \<Longrightarrow>
   utf8_run cp 0 lo hi (b # bs) =
     utf8_run (b mod 8) 3 (if b = 0xF0 then 0x90 else 0x80) (if b = 0xF4 then 0x8F else 0xBF) bs"
  by simp

lemma run_last:
  "lo \<le> b \<Longrightarrow> b \<le> hi \<Longrightarrow>
   utf8_run cp 1 lo hi (b # bs) = (cp * 64 + b mod 64) # utf8_run 0 0 0x80 0xBF bs"
  by simp

lemma run_cont2:
  "lo \<le> b \<Longrightarrow> b \<le> hi \<Longrightarrow>
   utf8_run cp 2 lo hi (b # bs) = utf8_run (cp * 64 + b mod 64) 1 0x80 0xBF bs"
  by simp

lemma run_cont3:
  "lo \<le> b \<Longrightarrow> b \<le> hi \<Longrightarrow>
   utf8_run cp 3 lo hi (b # bs) = utf8_run (cp * 64 + b mod 64) 2 0x80 0xBF bs"
  by simp

lemma div_4096: "(c::nat) div 4096 = c div 64 div 64"
  by (simp add: div_mult2_eq)

lemma div_262144: "(c::nat) div 262144 = c div 64 div 64 div 64"
  by (simp add: div_mult2_eq)

lemma join_three_bytes: "(c div 4096 * 64 + c div 64 mod 64) * 64 + c mod 64 = (c::nat)"
  by (simp only: div_4096 div_mult_mod_eq)

lemma join_four_bytes: "((c div 262144 * 64 + c div 4096 mod 64) * 64 + c div 64 mod 64) * 64 + c mod 64 = (c::nat)"
  by (simp only: div_4096 div_262144 div_mult_mod_eq)

lemma split_by_64: "(q::nat) = q div 64 * 64 + q mod 64"
  by (simp only: div_mult_mod_eq)

lemma below_surrogates:
  assumes "c div 4096 = 13" "c < (0xD800::nat)"
  shows "c div 64 mod 64 < 32"
proof -
  define q where "q = c div 64"
  have "q div 64 = 13" using assms(1) by (simp only: q_def div_4096)
  then have "q = 13 * 64 + q mod 64" using split_by_64 [of q] by simp
  moreover have "q < 864" using assms(2) by (simp add: q_def)
  ultimately show ?thesis unfolding q_def by linarith
qed

lemma three_byte_floor:
  assumes "c div 4096 = 0" "(0x800::nat) \<le> c"
  shows "32 \<le> c div 64 mod 64"
proof -
  define q where "q = c div 64"
  have "q div 64 = 0" using assms(1) by (simp only: q_def div_4096)
  then have "q = q mod 64" using split_by_64 [of q] by simp
  moreover have "32 \<le> q" using assms(2) by (simp add: q_def)
  ultimately show ?thesis unfolding q_def by linarith
qed

lemma four_byte_ceiling:
  assumes "c div 262144 = 4" "c < (0x110000::nat)"
  shows "c div 4096 mod 64 < 16"
proof -
  define q where "q = c div 4096"
  have "q div 64 = 4" using assms(1) by (simp only: q_def div_4096 div_262144)
  then have "q = 4 * 64 + q mod 64" using split_by_64 [of q] by simp
  moreover have "q < 272" using assms(2) by (simp add: q_def)
  ultimately show ?thesis unfolding q_def by linarith
qed

lemma four_byte_floor:
  assumes "c div 262144 = 0" "(0x10000::nat) \<le> c"
  shows "16 \<le> c div 4096 mod 64"
proof -
  define q where "q = c div 4096"
  have "q div 64 = 0" using assms(1) by (simp only: q_def div_4096 div_262144)
  then have "q = q mod 64" using split_by_64 [of q] by simp
  moreover have "16 \<le> q" using assms(2) by (simp add: q_def)
  ultimately show ?thesis unfolding q_def by linarith
qed

lemma lead_byte_payload: "x < 16 \<Longrightarrow> (0xE0 + x) mod 16 = (x::nat)" "y < 8 \<Longrightarrow> (0xF0 + y) mod 8 = (y::nat)"
  "z < 32 \<Longrightarrow> (0xC0 + z) mod 32 = (z::nat)"
proof -
  have "(x + 14 * 16) mod 16 = x mod 16" by (simp only: mod_mult_self1)
  then show "x < 16 \<Longrightarrow> (0xE0 + x) mod 16 = (x::nat)" by (simp add: add.commute)
  have "(y + 30 * 8) mod 8 = y mod 8" by (simp only: mod_mult_self1)
  then show "y < 8 \<Longrightarrow> (0xF0 + y) mod 8 = (y::nat)" by (simp add: add.commute)
  have "(z + 6 * 32) mod 32 = z mod 32" by (simp only: mod_mult_self1)
  then show "z < 32 \<Longrightarrow> (0xC0 + z) mod 32 = (z::nat)" by (simp add: add.commute)
qed

lemma continuation_byte: "0x80 \<le> 0x80 + x mod 64" "0x80 + x mod 64 \<le> (0xBF::nat)" "(0x80 + x mod 64) mod 64 = x mod 64"
proof -
  have "x mod 64 < 64" by simp
  then show "0x80 + x mod 64 \<le> (0xBF::nat)" by linarith
  have "(x mod 64 + 2 * 64) mod 64 = x mod 64" by (simp only: mod_mult_self1 mod_mod_trivial)
  then show "(0x80 + x mod 64) mod 64 = x mod 64" by (simp add: add.commute)
qed simp

lemma utf8_cp2:
  assumes "0x80 \<le> c" "c < 0x800"
  shows "utf8_run cp 0 lo hi (utf8_encode_cp c @ rest) = c # utf8_run 0 0 0x80 0xBF rest"
proof -
  have enc: "utf8_encode_cp c = [0xC0 + c div 64, 0x80 + c mod 64]"
    using assms by (simp add: utf8_encode_cp_def)
  have d: "2 \<le> c div 64" "c div 64 < 32" using assms by simp_all
  then have l: "0xC2 \<le> 0xC0 + c div 64" "0xC0 + c div 64 \<le> 0xDF" by linarith+
  have m: "(0xC0 + c div 64) mod 32 = c div 64" using d(2) by (rule lead_byte_payload)
  show ?thesis
    by (simp only: enc append.simps run_lead2 [OF l] m run_last [OF continuation_byte(1,2)] continuation_byte(3)
        div_mult_mod_eq)
qed

lemma utf8_cp3:
  assumes "0x800 \<le> c" "c < 0x10000" "\<not> is_high c" "\<not> is_low c"
  shows "utf8_run cp 0 lo hi (utf8_encode_cp c @ rest) = c # utf8_run 0 0 0x80 0xBF rest"
proof -
  have enc: "utf8_encode_cp c = [0xE0 + c div 4096, 0x80 + c div 64 mod 64, 0x80 + c mod 64]"
    using assms by (simp add: utf8_encode_cp_def)
  have d: "c div 4096 < 16" using assms by simp
  then have l: "0xE0 \<le> 0xE0 + c div 4096" "0xE0 + c div 4096 \<le> 0xEF" by linarith+
  have m: "(0xE0 + c div 4096) mod 16 = c div 4096" using d by (rule lead_byte_payload)
  have lo: "(if 0xE0 + c div 4096 = 0xE0 then 0xA0 else 0x80) \<le> 0x80 + c div 64 mod 64"
  proof (cases "c div 4096 = 0")
    case True
    from three_byte_floor [OF True assms(1)] show ?thesis by (simp only: if_P [OF refl] True add_0_right)
  next
    case False
    then show ?thesis by simp
  qed
  have hi: "0x80 + c div 64 mod 64 \<le> (if 0xE0 + c div 4096 = 0xED then 0x9F else 0xBF)"
  proof (cases "c div 4096 = 13")
    case True
    have "c = c div 4096 * 4096 + c mod 4096" by (simp only: div_mult_mod_eq)
    moreover have "c mod 4096 < 4096" by simp
    ultimately have "c < 57344" using True by linarith
    with assms(3,4) have "c < 0xD800" by (simp add: is_high_def is_low_def)
    from below_surrogates [OF True this] show ?thesis using True by simp
  next
    case False
    have "c div 64 mod 64 < 64" by simp
    then show ?thesis using False by simp
  qed
  show ?thesis
    by (simp only: enc append.simps run_lead3 [OF l] m run_cont2 [OF lo hi]
        run_last [OF continuation_byte(1,2)] continuation_byte(3) join_three_bytes)
qed

lemma utf8_cp4:
  assumes "0x10000 \<le> c" "c < 0x110000"
  shows "utf8_run cp 0 lo hi (utf8_encode_cp c @ rest) = c # utf8_run 0 0 0x80 0xBF rest"
proof -
  have enc: "utf8_encode_cp c =
     [0xF0 + c div 262144, 0x80 + c div 4096 mod 64, 0x80 + c div 64 mod 64, 0x80 + c mod 64]"
    using assms by (simp add: utf8_encode_cp_def)
  have d: "c div 262144 < 5" using assms by simp
  then have l: "0xF0 \<le> 0xF0 + c div 262144" "0xF0 + c div 262144 \<le> 0xF4" by linarith+
  have "c div 262144 < 8" using d by simp
  then have m: "(0xF0 + c div 262144) mod 8 = c div 262144" by (rule lead_byte_payload)
  have lo: "(if 0xF0 + c div 262144 = 0xF0 then 0x90 else 0x80) \<le> 0x80 + c div 4096 mod 64"
  proof (cases "c div 262144 = 0")
    case True
    from four_byte_floor [OF True assms(1)] show ?thesis by (simp only: if_P [OF refl] True add_0_right)
  next
    case False
    then show ?thesis by simp
  qed
  have hi: "0x80 + c div 4096 mod 64 \<le> (if 0xF0 + c div 262144 = 0xF4 then 0x8F else 0xBF)"
  proof (cases "c div 262144 = 4")
    case True
    from four_byte_ceiling [OF True assms(2)] show ?thesis using True by simp
  next
    case False
    have "c div 4096 mod 64 < 64" by simp
    then show ?thesis using False by simp
  qed
  show ?thesis
    by (simp only: enc append.simps run_lead4 [OF l] m run_cont3 [OF lo hi]
        run_cont2 [OF continuation_byte(1,2)] run_last [OF continuation_byte(1,2)] continuation_byte(3) join_four_bytes)
qed

lemma utf8_cp:
  assumes "scalar c"
  shows "utf8_run cp 0 lo hi (utf8_encode_cp c @ rest) = c # utf8_run 0 0 0x80 0xBF rest"
proof -
  consider "c < 0x80" | "0x80 \<le> c" "c < 0x800" | "0x800 \<le> c" "c < 0x10000" | "0x10000 \<le> c"
    by linarith
  then show ?thesis
  proof cases
    case 1
    then show ?thesis by (simp add: utf8_encode_cp_def)
  next
    case 2
    then show ?thesis by (rule utf8_cp2)
  next
    case 3
    then show ?thesis using assms by (intro utf8_cp3) (simp_all add: scalar_def)
  next
    case 4
    then show ?thesis using assms by (intro utf8_cp4) (simp_all add: scalar_def)
  qed
qed

lemma utf8_decode_encode:
  "list_all scalar cs \<Longrightarrow> utf8_decode (concat (map utf8_encode_cp cs)) = cs"
  unfolding utf8_decode_def
proof (induction cs)
  case Nil
  show ?case by simp
next
  case (Cons c cs)
  then show ?case by (simp add: utf8_cp del: utf8_run.simps)
qed

section \<open>UTF-16 round trip\<close>

lemma scalar_FFFD: "scalar 0xFFFD"
  by (simp add: scalar_def is_high_def is_low_def)

lemma scalar_unit: "u < 65536 \<Longrightarrow> \<not> is_high u \<Longrightarrow> \<not> is_low u \<Longrightarrow> scalar u"
  by (simp add: scalar_def)

lemma pair_value:
  assumes "is_high u" "is_low v"
  shows "scalar (0x10000 + (u - 0xD800) * 0x400 + (v - 0xDC00))"
    "utf16_encode_cp (0x10000 + (u - 0xD800) * 0x400 + (v - 0xDC00)) = [u, v]"
proof -
  define x where "x = u - 0xD800"
  define y where "y = v - 0xDC00"
  have x: "x < 0x400" "u = 0xD800 + x" using assms(1) by (auto simp: x_def is_high_def)
  have y: "y < 0x400" "v = 0xDC00 + y" using assms(2) by (auto simp: y_def is_low_def)
  have "x * 0x400 \<le> 0x3FF * 0x400" using x(1) by simp
  then have b: "0x10000 + x * 0x400 + y < 0x110000" using y(1) by simp
  show "scalar (0x10000 + (u - 0xD800) * 0x400 + (v - 0xDC00))"
    using b by (simp add: scalar_def is_high_def is_low_def x_def [symmetric] y_def [symmetric])
  have "(x * 0x400 + y) div 0x400 = x" "(x * 0x400 + y) mod 0x400 = y" using y(1) by simp_all
  then show "utf16_encode_cp (0x10000 + (u - 0xD800) * 0x400 + (v - 0xDC00)) = [u, v]"
    by (simp add: utf16_encode_cp_def x_def [symmetric] y_def [symmetric] x(2) y(2))
qed

lemma high_not_low: "is_high u \<Longrightarrow> \<not> is_low u"
  by (simp add: is_high_def is_low_def)

lemma utf16_decode_scalar:
  "list_all (\<lambda>u. u < 65536) us \<Longrightarrow> list_all (\<lambda>p. scalar (replace_invalid p)) (utf16_decode us)"
  by (induction us rule: utf16_decode.induct)
     (simp_all add: replace_invalid_def scalar_FFFD scalar_unit pair_value(1))

lemma utf16_encode_unit: "u < 65536 \<Longrightarrow> utf16_encode_cp u = [u]"
  by (simp add: utf16_encode_cp_def)

lemma utf16_encode_FFFD: "utf16_encode_cp 0xFFFD = [0xFFFD]"
  by (simp add: utf16_encode_cp_def)

lemma utf16_encode_decode:
  "list_all (\<lambda>u. u < 65536) us \<Longrightarrow>
   concat (map (\<lambda>p. utf16_encode_cp (replace_invalid p)) (utf16_decode us)) = to_well_formed_units us"
  by (induction us rule: utf16_decode.induct)
     (simp_all add: replace_invalid_def utf16_encode_FFFD utf16_encode_unit pair_value(2))

lemma well_formed_fixed: "well_formed_units us \<Longrightarrow> to_well_formed_units us = us"
  by (induction us rule: well_formed_units.induct) (auto simp: high_not_low split: if_splits)

lemma units_of_string: "list_all (\<lambda>u. u < 65536) (map unat (s :: jsstring))"
proof -
  have "unat u < 65536" for u :: "16 word" using unsigned_less [of u, where ?'a = nat] by simp
  then show ?thesis by (simp add: list_all_iff)
qed

lemma utf8_encode_cp_bytes: "scalar c \<Longrightarrow> list_all (\<lambda>b. b < 256) (utf8_encode_cp c)"
proof -
  assume "scalar c"
  then have c: "c < 0x110000" by (simp add: scalar_def)
  have m: "x mod 64 < 64" for x :: nat by simp
  have "c < 0x800 \<Longrightarrow> c div 64 < 32" "c < 0x10000 \<Longrightarrow> c div 4096 < 16" "c div 262144 < 5"
    using c by simp_all
  then show ?thesis
    using m [of c] m [of "c div 64"] m [of "c div 4096"]
    by (auto simp add: utf8_encode_cp_def simp del: mod_less_divisor)
qed

lemma Buffer_from_bytes: "list_all (\<lambda>b. b < 256) (Buffer_from s)"
  using utf16_decode_scalar [OF units_of_string, of s]
  by (induction "utf16_decode (map unat s)")
     (auto simp: Buffer_from_def list_all_iff dest!: utf8_encode_cp_bytes)

section \<open>The codec\<close>

lemma word_units: "map of_nat (map unat s) = (s :: jsstring)"
  by (induction s) simp_all

lemma Buffer_roundtrip: "Buffer_toString (Buffer_from s) = toWellFormed s"
proof -
  define ps where "ps = utf16_decode (map unat s)"
  have sc: "list_all scalar (map replace_invalid ps)"
    using utf16_decode_scalar [OF units_of_string, of s] by (simp add: ps_def list_all_iff)
  have "utf8_decode (Buffer_from s) = map replace_invalid ps"
    using utf8_decode_encode [OF sc] by (simp add: Buffer_from_def ps_def comp_def)
  then have "Buffer_toString (Buffer_from s) =
      map of_nat (concat (map (\<lambda>p. utf16_encode_cp (replace_invalid p)) ps))"
    by (simp add: Buffer_toString_def comp_def)
  also have "\<dots> = map of_nat (to_well_formed_units (map unat s))"
    using utf16_encode_decode [OF units_of_string, of s] by (simp add: ps_def)
  finally show ?thesis by (simp add: toWellFormed_def)
qed

lemma base64_decode_encode: "base64_decode (encode s) = Buffer_from s"
  unfolding encode_def by (rule base64_roundtrip [OF Buffer_from_bytes])

lemma decode_encode: "decode (encode s) = toWellFormed s"
  by (simp add: decode_def base64_decode_encode Buffer_roundtrip)

lemma toWellFormed_id: "isWellFormed s \<Longrightarrow> toWellFormed s = s"
  unfolding isWellFormed_def toWellFormed_def
  by (simp only: well_formed_fixed word_units)

lemma b64_char_alphabet: "base64_alphabet (b64_char n)"
  unfolding base64_alphabet_def b64_char_def Let_def
  by (auto simp: of_char_of)

lemma base64_encode_alphabet: "list_all base64_alphabet (base64_encode bs)"
proof (induction bs rule: base64_encode.induct)
  case 1
  show ?case by simp
next
  case (2 a)
  have "base64_alphabet (CHR ''='')" by (simp add: base64_alphabet_def)
  then show ?case by (simp add: b64_char_alphabet)
next
  case (3 a b)
  have "base64_alphabet (CHR ''='')" by (simp add: base64_alphabet_def)
  then show ?case by (simp add: b64_char_alphabet)
next
  case (4 a b c rest)
  then show ?case by (simp add: b64_char_alphabet)
qed

section \<open>Claims about the codec\<close>

text \<open>
  C1. Decoding the encoding of a Unicode string gives the string back: for every
  well-formed string \<open>x\<close> (a sequence of Unicode scalar values, of any length, with
  combining marks or characters outside the Basic Multilingual Plane),
  \<open>decode (encode x) = x\<close>. \<open>encode\<close> is a total function: it never fails.
\<close>

theorem decode_encode_roundtrip:
  "isWellFormed x \<Longrightarrow> decode (encode x) = x"
  by (simp add: decode_encode toWellFormed_id)

theorem decode_encode_roundtrip_witness:
  "isWellFormed [0x0E17, 0x0E14, 0x65, 0x0301, 0xD83D, 0xDE00, 0x2E, 0x74] \<and>
   decode (encode [0x0E17, 0x0E14, 0x65, 0x0301, 0xD83D, 0xDE00, 0x2E, 0x74])
     = [0x0E17, 0x0E14, 0x65, 0x0301, 0xD83D, 0xDE00, 0x2E, 0x74]"
proof -
  have w: "isWellFormed [0x0E17, 0x0E14, 0x65, 0x0301, 0xD83D, 0xDE00, 0x2E, 0x74]"
    by (simp add: isWellFormed_def is_high_def is_low_def)
  show ?thesis using w decode_encode_roundtrip [OF w] by simp
qed

text \<open>
  C9. For every input string the token that \<open>encode\<close> produces consists of characters
  of the base64 alphabet only: letters, digits, \<open>+\<close>, \<open>/\<close> and the padding \<open>=\<close>.
\<close>

theorem encode_token_alphabet:
  "list_all base64_alphabet (encode x)"
  unfolding encode_def by (rule base64_encode_alphabet)

theorem encode_token_alphabet_witness:
  "list_all base64_alphabet (encode [0x0E17, 0x0E14, 0x2E, 0x74])"
  by (rule encode_token_alphabet)

section \<open>Storage key derivation\<close>

lemma first_index_None: "first_index xs c = None \<longleftrightarrow> c \<notin> set xs"
  by (induction xs) auto

lemma first_index_less: "first_index xs c = Some k \<Longrightarrow> k < length xs"
  by (induction xs arbitrary: k) (auto split: if_splits)

lemma first_index_snoc:
  "first_index (xs @ [u]) c =
     (case first_index xs c of
        Some k \<Rightarrow> Some k
      | None \<Rightarrow> if u = c then Some (length xs) else None)"
  by (induction xs) (auto split: option.splits)

lemma lastIndexOf_Cons:
  "lastIndexOf (u # us) c =
     (if c \<in> set us then 1 + lastIndexOf us c else if u = c then 0 else - 1)"
proof (cases "first_index (rev us) c")
  case None
  then have "c \<notin> set us" by (simp add: first_index_None)
  then show ?thesis using None by (simp add: lastIndexOf_def first_index_snoc)
next
  case (Some k)
  then have "c \<in> set us" using first_index_None [of "rev us" c] by simp
  then show ?thesis using Some by (simp add: lastIndexOf_def first_index_snoc)
qed

lemma lastIndexOf_nonneg: "c \<in> set s \<Longrightarrow> 0 \<le> lastIndexOf s c"
proof -
  assume "c \<in> set s"
  then obtain k where k: "first_index (rev s) c = Some k"
    using first_index_None [of "rev s" c] by auto
  then have "k < length s" using first_index_less [OF k] by simp
  then show ?thesis using k by (simp add: lastIndexOf_def)
qed

lemma extension_spec: "extension filePath = spec_extension filePath"
proof (induction filePath)
  case Nil
  show ?case by (simp add: extension_def includes_unit_def)
next
  case (Cons u us)
  show ?case
  proof (cases "dot \<in> set us")
    case True
    then have "nat (1 + lastIndexOf us dot) = Suc (nat (lastIndexOf us dot))"
      using lastIndexOf_nonneg [OF True] by simp
    then have "extension (u # us) = extension us"
      using True by (simp add: extension_def includes_unit_def substring_from_def lastIndexOf_Cons)
    then show ?thesis using True Cons by simp
  next
    case False
    then show ?thesis
      by (simp add: extension_def includes_unit_def substring_from_def lastIndexOf_Cons)
  qed
qed

lemma hasNonAsciiChars_iff:
  "hasNonAsciiChars s \<longleftrightarrow> \<not> list_all (\<lambda>u. unat u \<le> 0x7F) s"
  by (induction s) (auto simp: hasNonAsciiChars_def)

text \<open>
  C2. A declared file name made of ASCII characters only is its own storage key.
  Any other name gets the key \<open>file-<timestamp>-<random token><extension>\<close>, where the
  extension is the part of the name from its last dot on, and is empty when the name
  has no dot; a dot at the start of the name counts like any other.
\<close>

theorem storage_key_policy:
  "safeBlobName e filePath =
     (if list_all (\<lambda>u. unat u \<le> 0x7F) filePath then filePath
      else js ''file-'' @ show_int (now e) @ js ''-'' @ randomId e @ spec_extension filePath)"
  by (simp add: safeBlobName_def hasNonAsciiChars_iff extension_spec)

theorem storage_key_policy_witness:
  "safeBlobName \<lparr>now = 1700000000000, random36 = js ''0.4fzyo82mvyr'', isoNow = ''''\<rparr>
     (js ''report.pdf'') = js ''report.pdf'' \<and>
   safeBlobName \<lparr>now = 1700000000000, random36 = js ''0.4fzyo82mvyr'', isoNow = ''''\<rparr>
     [0x2E, 0x0E44, 0x0E17] = js ''file-1700000000000-4fzyo82mvyr'' @ [0x2E, 0x0E44, 0x0E17] \<and>
   safeBlobName \<lparr>now = 1700000000000, random36 = js ''0.4fzyo82mvyr'', isoNow = ''''\<rparr>
     [0x0E44, 0x0E17] = js ''file-1700000000000-4fzyo82mvyr''"
  using
    storage_key_policy [of "\<lparr>now = 1700000000000, random36 = js ''0.4fzyo82mvyr'', isoNow = ''''\<rparr>"
      "js ''report.pdf''"]
    storage_key_policy [of "\<lparr>now = 1700000000000, random36 = js ''0.4fzyo82mvyr'', isoNow = ''''\<rparr>"
      "[0x2E, 0x0E44, 0x0E17]"]
    storage_key_policy [of "\<lparr>now = 1700000000000, random36 = js ''0.4fzyo82mvyr'', isoNow = ''''\<rparr>"
      "[0x0E44, 0x0E17]"]
  by (simp add: js_def show_int_def show_nat.simps randomId_def substring_def dot_def)

section \<open>Well-formed names and \<open>encodeURIComponent\<close>\<close>

lemma well_formed_iff_decode: "well_formed_units us \<longleftrightarrow> None \<notin> set (utf16_decode us)"
  by (induction us rule: utf16_decode.induct) (auto simp: high_not_low)

lemma uri_component_Inr: "(\<exists>t. uri_component ps = Inr t) \<longleftrightarrow> None \<notin> set ps"
proof (induction ps)
  case Nil
  show ?case by simp
next
  case (Cons p ps)
  show ?case
  proof (cases p)
    case None
    then show ?thesis by simp
  next
    case (Some c)
    then show ?thesis using Cons by (cases "uri_component ps") auto
  qed
qed

lemma encodeURIComponent_Inr: "(\<exists>t. encodeURIComponent s = Inr t) \<longleftrightarrow> isWellFormed s"
  by (simp add: encodeURIComponent_def isWellFormed_def uri_component_Inr well_formed_iff_decode)

section \<open>The outputs of \<open>encode\<close>\<close>

lemma utf16_decode_plain:
  "\<not> is_high u \<Longrightarrow> \<not> is_low u \<Longrightarrow> utf16_decode (u # us) = Some u # utf16_decode us"
  by (cases us) simp_all

lemma not_surrogate_FFFD: "\<not> is_high 0xFFFD" "\<not> is_low 0xFFFD"
  by (simp_all add: is_high_def is_low_def)

lemma utf16_decode_to_well_formed:
  "map replace_invalid (utf16_decode (to_well_formed_units us))
     = map replace_invalid (utf16_decode us)"
proof (induction us rule: utf16_decode.induct)
  case 1
  show ?case by simp
next
  case (2 u)
  show ?case by (simp add: replace_invalid_def not_surrogate_FFFD)
next
  case (3 u v us)
  show ?case
  proof (cases "is_high u \<and> is_low v")
    case True
    then show ?thesis using 3(1) by simp
  next
    case False
    define r where "r = (if is_high u \<or> is_low u then 0xFFFD else u)"
    have r: "\<not> is_high r" "\<not> is_low r"
      by (simp_all add: r_def not_surrogate_FFFD)
    have 1: "to_well_formed_units (u # v # us) = r # to_well_formed_units (v # us)"
      using False by (auto simp: r_def)
    have 2: "map replace_invalid (utf16_decode (u # v # us))
        = r # map replace_invalid (utf16_decode (v # us))"
      using False by (auto simp: r_def replace_invalid_def)
    have "map replace_invalid (utf16_decode (r # to_well_formed_units (v # us)))
        = r # map replace_invalid (utf16_decode (to_well_formed_units (v # us)))"
      by (simp only: utf16_decode_plain [OF r] list.map replace_invalid_def option.case)
    then show ?thesis using 3(2) [OF False] by (simp only: 1 2)
  qed
qed

lemma to_well_formed_units_bound:
  "list_all (\<lambda>u. u < 65536) us \<Longrightarrow> list_all (\<lambda>u. u < 65536) (to_well_formed_units us)"
  by (induction us rule: to_well_formed_units.induct) simp_all

lemma unat_of_nat_units:
  "list_all (\<lambda>u. u < 65536) us \<Longrightarrow> map unat (map of_nat us :: jsstring) = us"
proof (induction us)
  case Nil
  show ?case by simp
next
  case (Cons u us)
  then have "u < 65536" by simp
  then have "unat (of_nat u :: 16 word) = u" by (simp add: unat_of_nat)
  then show ?case using Cons by simp
qed

lemma Buffer_from_toWellFormed: "Buffer_from (toWellFormed s) = Buffer_from s"
proof -
  have "map unat (toWellFormed s) = to_well_formed_units (map unat s)"
    unfolding toWellFormed_def
    by (rule unat_of_nat_units [OF to_well_formed_units_bound [OF units_of_string]])
  then have "Buffer_from (toWellFormed s) =
      concat (map utf8_encode_cp
        (map replace_invalid (utf16_decode (to_well_formed_units (map unat s)))))"
    by (simp add: Buffer_from_def)
  then show ?thesis by (simp add: utf16_decode_to_well_formed Buffer_from_def)
qed

lemma encode_range: "t \<in> range encode \<longleftrightarrow> encode (decode t) = t"
proof
  assume "t \<in> range encode"
  then obtain x where t: "t = encode x" by auto
  have "encode (decode t) = encode (toWellFormed x)" by (simp add: t decode_encode)
  then show "encode (decode t) = t" by (simp add: t encode_def Buffer_from_toWellFormed)
next
  assume "encode (decode t) = t"
  then show "t \<in> range encode" by (metis rangeI)
qed

section \<open>Evaluating the model on concrete inputs\<close>

lemma char_of_eq: "char_of (n::nat) = c \<longleftrightarrow> n mod 256 = of_char c"
proof
  assume "char_of n = c"
  then have "of_char (char_of n) = (of_char c :: nat)" by simp
  then show "n mod 256 = of_char c" by (simp add: of_char_of)
next
  assume "n mod 256 = of_char c"
  then have "char_of (n mod 256) = char_of (of_char c :: nat)" by simp
  then show "char_of n = c" by (simp add: char_of_mod_256)
qed

lemma char_of_eq_sym: "c = char_of (n::nat) \<longleftrightarrow> n mod 256 = of_char c"
  using char_of_eq [of n c] by auto

lemmas codec_eval = encode_def decode_def Buffer_from_def Buffer_toString_def base64_decode_def
  unbase64_def utf8_decode_def utf16_encode_cp_def utf8_encode_cp_def b64_char_def
  is_high_def is_low_def replace_invalid_def js_def char_of_eq char_of_eq_sym

lemmas key_eval = safeBlobName_def hasNonAsciiChars_def show_int_def show_nat.simps randomId_def
  substring_def extension_def includes_unit_def lastIndexOf_def substring_from_def dot_def

lemmas store_eval = listBlobs_def list_entry_def getBlobMetadata_def getOriginalFileName_def
  memory_sdk_def uploadFileToBlob_def property_def truthy_def no_metadata_def Let_def
  encodeURIComponent_def uri_escape_def uri_unreserved_def EscapePath_def escape_path_cp_def
  lower_case_keys_def lower_char_def

section \<open>Claims about the storage key\<close>

text \<open>
  C8. The storage key should be ASCII for every declared file name. The code does not
  achieve it: the key keeps the extension of the name as it is, so a name whose part
  after the last dot holds a Thai letter gets a key with that letter in it. Here the
  declared name is U+0E01 \<open>.\<close> U+0E02.
\<close>

theorem safeBlobName_thai_extension:
  "safeBlobName \<lparr>now = 1700000000000, random36 = js ''0.4fzyo82mvyr'', isoNow = ''''\<rparr>
     [0x0E01, 0x2E, 0x0E02] = js ''file-1700000000000-4fzyo82mvyr'' @ [0x2E, 0x0E02] \<and>
   hasNonAsciiChars
     (safeBlobName \<lparr>now = 1700000000000, random36 = js ''0.4fzyo82mvyr'', isoNow = ''''\<rparr>
        [0x0E01, 0x2E, 0x0E02])"
  by (simp add: key_eval js_def)

section \<open>Claims about uploading\<close>

lemma upload_Inr_well_formed:
  "snd (uploadFileToBlob c e st filePath fileBuffer contentType) = Inr r \<Longrightarrow> isWellFormed filePath"
  using encodeURIComponent_Inr [of filePath]
  by (cases "encodeURIComponent filePath") (auto simp: uploadFileToBlob_def Let_def)

lemma upload_Inr_fields:
  "snd (uploadFileToBlob c e st filePath fileBuffer contentType) = Inr r \<Longrightarrow>
   res_decodedName r = decode (encode filePath) \<and> res_originalName r = filePath \<and>
   res_blobName r = safeBlobName e filePath"
  by (auto simp: uploadFileToBlob_def Let_def split: sum.splits)

text \<open>
  C5, as claimed: the recovered name of the upload result is decoded from the metadata
  read back from the store. It is not: over a store that reports no metadata back, the
  read path recovers nothing, and the upload result still carries the declared name.
\<close>

theorem upload_ignores_read_back:
  "snd (uploadFileToBlob (memory_sdk no_metadata)
          \<lparr>now = 1700000000000, random36 = js ''0.4fzyo82mvyr'', isoNow = ''2023-11-14''\<rparr>
          [] (js ''b.txt'') [104, 105] (js ''text/plain''))
     = Inr \<lparr>res_url = js ''https://store/rag-container/b.txt'', res_originalName = js ''b.txt'',
            res_decodedName = js ''b.txt'', res_blobName = js ''b.txt''\<rparr> \<and>
   sdk_getProperties (memory_sdk no_metadata)
     (fst (uploadFileToBlob (memory_sdk no_metadata)
          \<lparr>now = 1700000000000, random36 = js ''0.4fzyo82mvyr'', isoNow = ''2023-11-14''\<rparr>
          [] (js ''b.txt'') [104, 105] (js ''text/plain''))) (js ''b.txt'') = Inr None \<and>
   getOriginalFileName (memory_sdk no_metadata)
     (fst (uploadFileToBlob (memory_sdk no_metadata)
          \<lparr>now = 1700000000000, random36 = js ''0.4fzyo82mvyr'', isoNow = ''2023-11-14''\<rparr>
          [] (js ''b.txt'') [104, 105] (js ''text/plain''))) (js ''b.txt'') = None"
  by (simp add: store_eval key_eval codec_eval)

text \<open>
  C5, amended: for every successful upload, over any store, the recovered name of the
  upload result is the decoding of the token that was encoded in memory from the
  declared name, whatever the store reports back; it equals the declared name.
\<close>

theorem upload_decodedName:
  "snd (uploadFileToBlob c e st filePath fileBuffer contentType) = Inr r \<Longrightarrow>
   res_decodedName r = decode (encode filePath) \<and> res_decodedName r = filePath"
proof -
  assume r: "snd (uploadFileToBlob c e st filePath fileBuffer contentType) = Inr r"
  have "decode (encode filePath) = filePath"
    using upload_Inr_well_formed [OF r] by (simp add: decode_encode toWellFormed_id)
  then show ?thesis using upload_Inr_fields [OF r] by simp
qed

theorem upload_decodedName_witness:
  "snd (uploadFileToBlob (memory_sdk Some)
          \<lparr>now = 1700000000000, random36 = js ''0.4fzyo82mvyr'', isoNow = ''2023-11-14''\<rparr>
          [] [0x0E01, 0x2E, 0x74] [104, 105] (js ''text/plain''))
     = Inr \<lparr>res_url = js ''https://store/rag-container/file-1700000000000-4fzyo82mvyr.t'',
            res_originalName = [0x0E01, 0x2E, 0x74],
            res_decodedName = [0x0E01, 0x2E, 0x74],
            res_blobName = js ''file-1700000000000-4fzyo82mvyr.t''\<rparr> \<and>
   res_decodedName \<lparr>res_url = js ''https://store/rag-container/file-1700000000000-4fzyo82mvyr.t'',
            res_originalName = [0x0E01, 0x2E, 0x74],
            res_decodedName = [0x0E01, 0x2E, 0x74],
            res_blobName = js ''file-1700000000000-4fzyo82mvyr.t''\<rparr> = [0x0E01, 0x2E, 0x74]"
proof -
  have h: "snd (uploadFileToBlob (memory_sdk Some)
          \<lparr>now = 1700000000000, random36 = js ''0.4fzyo82mvyr'', isoNow = ''2023-11-14''\<rparr>
          [] [0x0E01, 0x2E, 0x74] [104, 105] (js ''text/plain''))
     = Inr \<lparr>res_url = js ''https://store/rag-container/file-1700000000000-4fzyo82mvyr.t'',
            res_originalName = [0x0E01, 0x2E, 0x74],
            res_decodedName = [0x0E01, 0x2E, 0x74],
            res_blobName = js ''file-1700000000000-4fzyo82mvyr.t''\<rparr>"
    by (simp add: store_eval key_eval codec_eval)
  show ?thesis using h upload_decodedName [OF h] by simp
qed

section \<open>Claims about reading names back\<close>

lemma list_entry_fields:
  assumes "list_entry c st n = Inr e"
  shows "\<exists>m. getBlobMetadata c st n = Inr m \<and> entry_name e = n \<and>
           originalName e = (if truthy (property m ''originalfilename'')
                             then property m ''originalfilename'' else None) \<and>
           decodedName e = (if truthy (property m ''originalfilename'')
                            then map_option decode (property m ''originalfilename'') else None)"
proof (cases "getBlobMetadata c st n")
  case (Inl err)
  then show ?thesis using assms by (simp add: list_entry_def)
next
  case (Inr m)
  then have e: "(if truthy (property m ''originalfilename'')
             then \<lparr>entry_name = n, entry_url = sdk_url c n,
                   originalName = property m ''originalfilename'',
                   decodedName = map_option decode (property m ''originalfilename'')\<rparr>
             else \<lparr>entry_name = n, entry_url = sdk_url c n,
                   originalName = None, decodedName = None\<rparr>) = e"
    using assms by (simp add: list_entry_def)
  have "entry_name e = n \<and>
           originalName e = (if truthy (property m ''originalfilename'')
                             then property m ''originalfilename'' else None) \<and>
           decodedName e = (if truthy (property m ''originalfilename'')
                            then map_option decode (property m ''originalfilename'') else None)"
    unfolding e [symmetric] by simp
  then show ?thesis using Inr by simp
qed

lemma list_entry_name:
  assumes "list_entry c st n = Inr e"
  shows "entry_name e = n"
proof -
  from list_entry_fields [OF assms] obtain m where "entry_name e = n" by (elim exE conjE)
  then show ?thesis .
qed

lemma listBlobs_loop_Inr:
  "listBlobs_loop c st names acc = Inr es \<Longrightarrow>
   \<exists>es'. es = acc @ es' \<and> list_all2 (\<lambda>n e. list_entry c st n = Inr e) names es'"
proof (induction names arbitrary: acc)
  case Nil
  then show ?case by simp
next
  case (Cons n names)
  from Cons.prems obtain e where e: "list_entry c st n = Inr e"
    and rest: "listBlobs_loop c st names (acc @ [e]) = Inr es"
    by (cases "list_entry c st n") auto
  from Cons.IH [OF rest] obtain es' where
    "es = (acc @ [e]) @ es'" "list_all2 (\<lambda>n e. list_entry c st n = Inr e) names es'"
    by blast
  then have "es = acc @ (e # es') \<and> list_all2 (\<lambda>n e. list_entry c st n = Inr e) (n # names) (e # es')"
    using e by simp
  then show ?case by blast
qed

lemma listBlobs_loop_total:
  "\<forall>n\<in>set names. \<exists>m. getBlobMetadata c st n = Inr m \<Longrightarrow>
   \<exists>es. listBlobs_loop c st names acc = Inr es"
proof (induction names arbitrary: acc)
  case Nil
  show ?case by simp
next
  case (Cons n names)
  then obtain m where "getBlobMetadata c st n = Inr m" by auto
  then obtain e where "list_entry c st n = Inr e" by (simp add: list_entry_def)
  then show ?case using Cons by simp
qed

text \<open>A rejected metadata read ends the loop with that error.\<close>

lemma listBlobs_loop_rejected:
  "n \<in> set names \<Longrightarrow> getBlobMetadata c st n = Inl err \<Longrightarrow>
   \<exists>err'. listBlobs_loop c st names acc = Inl err'"
proof (induction names arbitrary: acc)
  case Nil
  then show ?case by simp
next
  case (Cons k names)
  show ?case
  proof (cases "list_entry c st k")
    case (Inl e)
    then show ?thesis by simp
  next
    case (Inr entry)
    then have "k \<noteq> n" using Cons.prems(2) by (auto simp: list_entry_def)
    then have "n \<in> set names" using Cons.prems(1) by simp
    from Cons.IH [OF this Cons.prems(2)] show ?thesis using Inr by simp
  qed
qed

lemma listBlobs_Inr:
  assumes "listBlobs c st = Inr es"
  shows "\<exists>names. sdk_listBlobsFlat c st = Inr names \<and>
           list_all2 (\<lambda>n e. list_entry c st n = Inr e) names es"
proof (cases "sdk_listBlobsFlat c st")
  case (Inl err)
  then show ?thesis using assms by (simp add: listBlobs_def)
next
  case (Inr names)
  then have "listBlobs_loop c st names [] = Inr es" using assms by (simp add: listBlobs_def)
  from listBlobs_loop_Inr [OF this] show ?thesis using Inr by simp
qed

lemma list_all2_entry_names:
  "list_all2 (\<lambda>n e. list_entry c st n = Inr e) names es \<Longrightarrow> map entry_name es = names"
  by (induction names es rule: list_all2_induct) (simp_all add: list_entry_name)

lemma list_all2_entry_member:
  "list_all2 (\<lambda>n e. list_entry c st n = Inr e) names es \<Longrightarrow> e \<in> set es \<Longrightarrow>
   list_entry c st (entry_name e) = Inr e"
  by (induction names es rule: list_all2_induct) (auto simp: list_entry_name)

section \<open>Uploading into the in-memory store\<close>

lemma utf8_encode_cp_nonempty: "utf8_encode_cp c \<noteq> []"
  by (simp add: utf8_encode_cp_def)

lemma utf16_decode_nonempty: "us \<noteq> [] \<Longrightarrow> utf16_decode us \<noteq> []"
  by (induction us rule: utf16_decode.induct) simp_all

lemma Buffer_from_nonempty: "s \<noteq> [] \<Longrightarrow> Buffer_from s \<noteq> []"
proof -
  assume "s \<noteq> []"
  then have "utf16_decode (map unat s) \<noteq> []" by (simp add: utf16_decode_nonempty)
  then obtain p ps where "utf16_decode (map unat s) = p # ps" by (cases "utf16_decode (map unat s)") auto
  then show ?thesis by (simp add: Buffer_from_def utf8_encode_cp_nonempty)
qed

lemma base64_encode_nonempty: "bs \<noteq> [] \<Longrightarrow> base64_encode bs \<noteq> []"
  by (induction bs rule: base64_encode.induct) simp_all

lemma encode_nonempty: "s \<noteq> [] \<Longrightarrow> encode s \<noteq> []"
  by (simp add: encode_def base64_encode_nonempty Buffer_from_nonempty)

lemma find_replaced:
  "find (\<lambda>b. blob_name b = n) (filter (\<lambda>b. blob_name b \<noteq> n) st @ [x]) =
     (if blob_name x = n then Some x else None)"
  by (induction st) simp_all

lemma find_member: "x \<in> set xs \<Longrightarrow> find (\<lambda>b. blob_name b = blob_name x) xs \<noteq> None"
  by (induction xs) auto

lemma memory_reads_total:
  "\<forall>n\<in>set (map blob_name st). \<exists>m. getBlobMetadata (memory_sdk view) st n = Inr m"
proof
  fix n
  assume "n \<in> set (map blob_name st)"
  then obtain x where "x \<in> set st" "n = blob_name x" by auto
  then obtain b where "find (\<lambda>b. blob_name b = n) st = Some b"
    using find_member [of x st] by auto
  then show "\<exists>m. getBlobMetadata (memory_sdk view) st n = Inr m"
    by (simp add: getBlobMetadata_def memory_sdk_def)
qed

lemma lower_case_written:
  "lower_case_keys [(''originalFilename'', t), (''originalNameUtf8'', u), (''dateUploaded'', d)]
     = Some [(''originalfilename'', t), (''originalnameutf8'', u), (''dateuploaded'', d)]"
  by (simp add: lower_case_keys_def lower_char_def char_of_eq char_of_eq_sym)

lemma list_all2_entry_exists:
  "list_all2 (\<lambda>n e. list_entry c st n = Inr e) names es \<Longrightarrow> n \<in> set names \<Longrightarrow>
   \<exists>e\<in>set es. entry_name e = n"
  by (induction names es rule: list_all2_induct) (auto simp: list_entry_name)

lemma upload_memory:
  assumes "encodeURIComponent filePath = Inr u"
  shows "uploadFileToBlob (memory_sdk view) e st filePath fileBuffer contentType =
     (filter (\<lambda>b. blob_name b \<noteq> safeBlobName e filePath) st
        @ [\<lparr>blob_name = safeBlobName e filePath, blob_body = fileBuffer,
             blob_contentType = contentType,
             blob_metadata = [(''originalFilename'', encode filePath),
                              (''originalNameUtf8'', u), (''dateUploaded'', isoNow e)]\<rparr>],
      Inr \<lparr>res_url = sdk_url (memory_sdk view) (safeBlobName e filePath),
            res_originalName = filePath,
            res_decodedName = decode (encode filePath),
            res_blobName = safeBlobName e filePath\<rparr>)"
  using assms by (simp add: uploadFileToBlob_def Let_def memory_sdk_def find_replaced)

lemma read_after_upload:
  "getBlobMetadata (memory_sdk view)
     (filter (\<lambda>b. blob_name b \<noteq> n) st
        @ [\<lparr>blob_name = n, blob_body = body, blob_contentType = ct, blob_metadata = md\<rparr>]) n
     = Inr (view md)"
  by (simp add: getBlobMetadata_def memory_sdk_def find_replaced)

lemma lower_char_not_F: "lower_char c \<noteq> CHR ''F''"
proof (cases "65 \<le> (of_char c :: nat) \<and> (of_char c :: nat) \<le> 90")
  case True
  then have "(of_char c + 32) mod 256 \<noteq> (70 :: nat)" by auto
  then show ?thesis using True by (simp add: lower_char_def char_of_eq)
next
  case False
  then have "c \<noteq> CHR ''F''" by auto
  then show ?thesis using False by (auto simp: lower_char_def Let_def)
qed

lemma lower_key_differs: "map lower_char k \<noteq> ''originalFilename''"
proof
  assume "map lower_char k = ''originalFilename''"
  then have "CHR ''F'' \<in> set (map lower_char k)" by simp
  then obtain x where "lower_char x = CHR ''F''" by auto
  with lower_char_not_F show False by blast
qed

lemma lower_case_lookup_none:
  "\<forall>k. map lower_char k \<noteq> key \<Longrightarrow>
   map_of (map (\<lambda>(k, v). (map lower_char k, v)) md) key = None"
  by (induction md) auto

lemma lower_case_lookup:
  "map_of (map (\<lambda>(k, v). (map lower_char k, v)) md) ''originalFilename'' = None"
  by (rule lower_case_lookup_none) (simp only: lower_key_differs simp_thms)

text \<open>
  Over the storage client \<open>getOriginalFileName\<close> finds no token: it reads the key as the
  upload spelled it.
\<close>

lemma getOriginalFileName_lower_case:
  "getOriginalFileName (memory_sdk lower_case_keys) st blobName = None"
  by (cases "find (\<lambda>b. blob_name b = blobName) st")
     (simp_all add: getOriginalFileName_def getBlobMetadata_def memory_sdk_def property_def
        lower_case_keys_def truthy_def lower_case_lookup)

section \<open>Claims about listing what was uploaded\<close>

text \<open>
  C3, as claimed: the upload and the listing use the same metadata key, so that over
  a metadata map that preserves key casing exactly as written the listing recovers the
  declared name. They do not. The upload of \<open>report.pdf\<close> writes the keys
  \<open>originalFilename\<close>, \<open>originalNameUtf8\<close> and \<open>dateUploaded\<close>; the storage client reports
  them back as \<open>originalfilename\<close>, \<open>originalnameutf8\<close> and \<open>dateuploaded\<close>, and it is
  \<open>originalfilename\<close> that the listing reads. Over a map that keeps the keys as written,
  the listing of the uploaded object has both names null.
\<close>

theorem listing_after_upload:
  "map (map fst \<circ> blob_metadata)
     (fst (uploadFileToBlob (memory_sdk lower_case_keys)
        \<lparr>now = 1700000000000, random36 = js ''0.4fzyo82mvyr'', isoNow = ''2023-11-14''\<rparr>
        [] (js ''report.pdf'') [37, 80] (js ''application/pdf'')))
     = [[''originalFilename'', ''originalNameUtf8'', ''dateUploaded'']] \<and>
   sdk_getProperties (memory_sdk lower_case_keys)
     (fst (uploadFileToBlob (memory_sdk lower_case_keys)
        \<lparr>now = 1700000000000, random36 = js ''0.4fzyo82mvyr'', isoNow = ''2023-11-14''\<rparr>
        [] (js ''report.pdf'') [37, 80] (js ''application/pdf''))) (js ''report.pdf'')
     = Inr (Some [(''originalfilename'', ''cmVwb3J0LnBkZg==''),
                  (''originalnameutf8'', ''report.pdf''), (''dateuploaded'', ''2023-11-14'')]) \<and>
   listBlobs (memory_sdk Some)
     (fst (uploadFileToBlob (memory_sdk Some)
        \<lparr>now = 1700000000000, random36 = js ''0.4fzyo82mvyr'', isoNow = ''2023-11-14''\<rparr>
        [] (js ''report.pdf'') [37, 80] (js ''application/pdf'')))
     = Inr [\<lparr>entry_name = js ''report.pdf'',
             entry_url = js ''https://store/rag-container/report.pdf'',
             originalName = None, decodedName = None\<rparr>]"
  by (simp add: store_eval key_eval codec_eval)

text \<open>
  C3, amended: the upload writes the token under \<open>originalFilename\<close> and the listing
  reads \<open>originalfilename\<close>, the spelling under which the storage client reports that
  key. Over the storage client, for every declared name that is well-formed and not
  empty and for every earlier content of the container, the upload succeeds, the
  listing that follows succeeds and has an entry for the object, and every entry for
  the object carries the token as \<open>originalName\<close> and the declared name as \<open>decodedName\<close>.
\<close>

theorem listing_recovers_upload:
  assumes "isWellFormed filePath" and "filePath \<noteq> []"
  shows "\<exists>st' r es.
           uploadFileToBlob (memory_sdk lower_case_keys) e st filePath fileBuffer contentType
             = (st', Inr r) \<and>
           listBlobs (memory_sdk lower_case_keys) st' = Inr es \<and>
           (\<exists>entry\<in>set es. entry_name entry = res_blobName r) \<and>
           (\<forall>entry\<in>set es. entry_name entry = res_blobName r \<longrightarrow>
              originalName entry = Some (encode filePath) \<and> decodedName entry = Some filePath)"
proof -
  let ?c = "memory_sdk lower_case_keys"
  let ?n = "safeBlobName e filePath"
  from assms(1) obtain u where u: "encodeURIComponent filePath = Inr u"
    using encodeURIComponent_Inr [of filePath] by blast
  let ?md = "[(''originalFilename'', encode filePath), (''originalNameUtf8'', u),
              (''dateUploaded'', isoNow e)]"
  let ?st = "filter (\<lambda>b. blob_name b \<noteq> ?n) st
        @ [\<lparr>blob_name = ?n, blob_body = fileBuffer, blob_contentType = contentType,
             blob_metadata = ?md\<rparr>]"
  let ?r = "\<lparr>res_url = sdk_url ?c ?n, res_originalName = filePath,
            res_decodedName = decode (encode filePath), res_blobName = ?n\<rparr>"
  have up: "uploadFileToBlob ?c e st filePath fileBuffer contentType = (?st, Inr ?r)"
    by (rule upload_memory [OF u])
  have names: "sdk_listBlobsFlat ?c ?st = Inr (map blob_name ?st)"
    by (simp add: memory_sdk_def)
  from listBlobs_loop_total [OF memory_reads_total] obtain es where
    "listBlobs_loop ?c ?st (map blob_name ?st) [] = Inr es" by blast
  then have es: "listBlobs ?c ?st = Inr es" using names by (simp add: listBlobs_def)
  from listBlobs_Inr [OF es] have all:
    "list_all2 (\<lambda>n entry. list_entry ?c ?st n = Inr entry) (map blob_name ?st) es"
    using names by simp
  have "?n \<in> set (map blob_name ?st)" by simp
  from list_all2_entry_exists [OF all this]
  have ex: "\<exists>entry\<in>set es. entry_name entry = res_blobName ?r" by simp
  have read: "getBlobMetadata ?c ?st ?n
      = Inr (Some [(''originalfilename'', encode filePath), (''originalnameutf8'', u),
                   (''dateuploaded'', isoNow e)])"
    by (simp only: read_after_upload lower_case_written)
  have tok: "encode filePath \<noteq> []" using assms(2) by (rule encode_nonempty)
  have inv: "decode (encode filePath) = filePath"
    using assms(1) by (simp add: decode_encode toWellFormed_id)
  have "originalName entry = Some (encode filePath) \<and> decodedName entry = Some filePath"
    if "entry \<in> set es" "entry_name entry = ?n" for entry
  proof -
    from list_all2_entry_member [OF all that(1)] that(2)
    have "list_entry ?c ?st ?n = Inr entry" by simp
    from list_entry_fields [OF this] read tok inv show ?thesis
      by (simp add: property_def truthy_def)
  qed
  then have "\<forall>entry\<in>set es. entry_name entry = res_blobName ?r \<longrightarrow>
              originalName entry = Some (encode filePath) \<and> decodedName entry = Some filePath"
    by simp
  with up es ex show ?thesis by blast
qed

theorem listing_recovers_upload_witness:
  "isWellFormed [0x0E17, 0x0E14, 0x2E, 0x74] \<and>
   (\<exists>st' r es entry.
      uploadFileToBlob (memory_sdk lower_case_keys)
        \<lparr>now = 1700000000000, random36 = js ''0.4fzyo82mvyr'', isoNow = ''2023-11-14''\<rparr>
        [] [0x0E17, 0x0E14, 0x2E, 0x74] [104, 105] (js ''text/plain'') = (st', Inr r) \<and>
      listBlobs (memory_sdk lower_case_keys) st' = Inr es \<and>
      entry \<in> set es \<and> entry_name entry = res_blobName r \<and>
      decodedName entry = Some [0x0E17, 0x0E14, 0x2E, 0x74])"
proof -
  have h1: "isWellFormed [0x0E17, 0x0E14, 0x2E, 0x74]"
    by (simp add: isWellFormed_def is_high_def is_low_def)
  have h2: "[0x0E17, 0x0E14, 0x2E, 0x74] \<noteq> ([] :: jsstring)" by simp
  from listing_recovers_upload [OF h1 h2,
      where e = "\<lparr>now = 1700000000000, random36 = js ''0.4fzyo82mvyr'', isoNow = ''2023-11-14''\<rparr>"
        and st = "[]" and fileBuffer = "[104, 105]" and contentType = "js ''text/plain''"]
  obtain st' r es where
    a: "uploadFileToBlob (memory_sdk lower_case_keys)
        \<lparr>now = 1700000000000, random36 = js ''0.4fzyo82mvyr'', isoNow = ''2023-11-14''\<rparr>
        [] [0x0E17, 0x0E14, 0x2E, 0x74] [104, 105] (js ''text/plain'') = (st', Inr r)"
    and b: "listBlobs (memory_sdk lower_case_keys) st' = Inr es"
    and c: "\<exists>entry\<in>set es. entry_name entry = res_blobName r"
    and d: "\<forall>entry\<in>set es. entry_name entry = res_blobName r \<longrightarrow>
              originalName entry = Some (encode [0x0E17, 0x0E14, 0x2E, 0x74]) \<and>
              decodedName entry = Some [0x0E17, 0x0E14, 0x2E, 0x74]"
    by (elim exE conjE)
  from c obtain entry where e: "entry \<in> set es" "entry_name entry = res_blobName r"
    by (elim bexE)
  from d e have "decodedName entry = Some [0x0E17, 0x0E14, 0x2E, 0x74]" by simp
  with h1 a b e show ?thesis by (intro conjI exI)
qed

text \<open>
  C4, as claimed: an object whose metadata value does not decode is listed with a null
  recovered name. It is not: the token \<open>4LiX4Lg=\<close> is not an output of \<open>encode\<close> (its bytes
  end in the middle of a character), and its entry carries the name U+0E17 U+FFFD.
\<close>

theorem listing_corrupted_token:
  "listBlobs (memory_sdk Some)
     [\<lparr>blob_name = js ''a.txt'', blob_body = [], blob_contentType = js ''text/plain'',
        blob_metadata = [(''originalfilename'', ''YS50eHQ='')]\<rparr>,
      \<lparr>blob_name = js ''b.txt'', blob_body = [], blob_contentType = js ''text/plain'',
        blob_metadata = [(''originalfilename'', ''4LiX4Lg='')]\<rparr>]
     = Inr [\<lparr>entry_name = js ''a.txt'', entry_url = js ''https://store/rag-container/a.txt'',
             originalName = Some ''YS50eHQ='', decodedName = Some (js ''a.txt'')\<rparr>,
            \<lparr>entry_name = js ''b.txt'', entry_url = js ''https://store/rag-container/b.txt'',
             originalName = Some ''4LiX4Lg='', decodedName = Some [0x0E17, 0xFFFD]\<rparr>] \<and>
   ''4LiX4Lg='' \<notin> range encode"
proof -
  have "encode (decode ''4LiX4Lg='') \<noteq> ''4LiX4Lg=''" by (simp add: codec_eval)
  then have "''4LiX4Lg='' \<notin> range encode" by (simp only: encode_range not_False_eq_True)
  then show ?thesis by (simp add: store_eval codec_eval)
qed

text \<open>
  C4, amended: when the enumeration and every metadata read return, the listing
  returns one entry for every stored object, in enumeration order. An object with no
  metadata, without the key \<open>originalfilename\<close> or with an empty value under it has a
  null recovered name; any other value, an output of \<open>encode\<close> or not, is decoded to a
  name that is not null, and no value ends the call.
\<close>

theorem listBlobs_best_effort:
  assumes "sdk_listBlobsFlat c st = Inr names"
    and "\<forall>n\<in>set names. \<exists>m. getBlobMetadata c st n = Inr m"
  shows "\<exists>es. listBlobs c st = Inr es \<and> map entry_name es = names \<and>
           (\<forall>e\<in>set es. \<forall>m. getBlobMetadata c st (entry_name e) = Inr m \<longrightarrow>
              (case property m ''originalfilename'' of
                 None \<Rightarrow> decodedName e = None
               | Some t \<Rightarrow> decodedName e = (if t = [] then None else Some (decode t))))"
proof -
  from listBlobs_loop_total [OF assms(2)] obtain es where
    "listBlobs_loop c st names [] = Inr es" by blast
  then have es: "listBlobs c st = Inr es" using assms(1) by (simp add: listBlobs_def)
  from listBlobs_Inr [OF es] have all: "list_all2 (\<lambda>n e. list_entry c st n = Inr e) names es"
    using assms(1) by simp
  have "case property m ''originalfilename'' of
          None \<Rightarrow> decodedName e = None
        | Some t \<Rightarrow> decodedName e = (if t = [] then None else Some (decode t))"
    if "e \<in> set es" "getBlobMetadata c st (entry_name e) = Inr m" for e m
    using list_entry_fields [OF list_all2_entry_member [OF all that(1)]] that(2)
    by (auto simp: truthy_def split: option.splits)
  then show ?thesis using es list_all2_entry_names [OF all] by blast
qed

theorem listBlobs_best_effort_witness:
  "\<exists>es. listBlobs (memory_sdk Some)
       [\<lparr>blob_name = js ''a.txt'', blob_body = [], blob_contentType = js ''text/plain'',
          blob_metadata = [(''originalfilename'', ''YS50eHQ='')]\<rparr>,
        \<lparr>blob_name = js ''b.txt'', blob_body = [], blob_contentType = js ''text/plain'',
          blob_metadata = []\<rparr>] = Inr es \<and>
     map entry_name es = [js ''a.txt'', js ''b.txt'']"
proof -
  let ?st = "[\<lparr>blob_name = js ''a.txt'', blob_body = [], blob_contentType = js ''text/plain'',
          blob_metadata = [(''originalfilename'', ''YS50eHQ='')]\<rparr>,
        \<lparr>blob_name = js ''b.txt'', blob_body = [], blob_contentType = js ''text/plain'',
          blob_metadata = []\<rparr>]"
  have h1: "sdk_listBlobsFlat (memory_sdk Some) ?st = Inr [js ''a.txt'', js ''b.txt'']"
    by (simp add: memory_sdk_def)
  have h2: "\<forall>n\<in>set [js ''a.txt'', js ''b.txt''].
      \<exists>m. getBlobMetadata (memory_sdk Some) ?st n = Inr m"
    by (simp add: memory_sdk_def getBlobMetadata_def js_def)
  from listBlobs_best_effort [OF h1 h2] obtain es where
    "listBlobs (memory_sdk Some) ?st = Inr es" "map entry_name es = [js ''a.txt'', js ''b.txt'']"
    by (elim exE conjE)
  then show ?thesis by (intro exI conjI)
qed

section \<open>Lenient decoding\<close>

lemma unbase64_outside:
  "\<not> base64_alphabet c \<Longrightarrow> c \<noteq> CHR ''-'' \<Longrightarrow> c \<noteq> CHR ''_'' \<Longrightarrow> unbase64 c = None"
  by (auto simp: base64_alphabet_def unbase64_def Let_def)

lemma not_pad_outside: "\<not> base64_alphabet c \<Longrightarrow> c \<noteq> CHR ''=''"
  by (auto simp: base64_alphabet_def Let_def)

lemma b64_sextets_skip:
  "unbase64 c = None \<Longrightarrow> c \<noteq> CHR ''='' \<Longrightarrow>
   b64_sextets (xs @ c # ys) = b64_sextets (xs @ ys)"
  by (induction xs) (simp_all split: option.splits)

lemma b64_sextets_stop:
  "b64_sextets t = b64_sextets (takeWhile (\<lambda>c. c \<noteq> CHR ''='') t)"
  by (induction t) (simp_all split: option.splits)

lemma unbase64_url_safe:
  "unbase64 (CHR ''-'') = unbase64 (CHR ''+'')" "unbase64 (CHR ''_'') = unbase64 (CHR ''/'')"
  by (simp_all add: unbase64_def)

lemma b64_bytes_incomplete:
  "length ss mod 4 = 0 \<Longrightarrow> b64_bytes (ss @ [s]) = b64_bytes ss"
  by (induction ss rule: b64_bytes.induct) simp_all

lemma utf8_decode_stray:
  "(0x80 \<le> b \<and> b < 0xC2) \<or> 0xF4 < b \<Longrightarrow> utf8_decode (b # bs) = 0xFFFD # utf8_decode bs"
  by (auto simp: utf8_decode_def)

lemma utf8_decode_truncated:
  "0xC2 \<le> b \<Longrightarrow> b \<le> 0xF4 \<Longrightarrow> utf8_decode [b] = [0xFFFD]"
  by (auto simp: utf8_decode_def)

lemma list_entry_token:
  assumes "getBlobMetadata c st n = Inr m" and "property m ''originalfilename'' = Some t"
    and "t \<noteq> []"
  shows "\<exists>e. list_entry c st n = Inr e \<and> originalName e = Some t \<and>
           decodedName e = Some (decode t)"
  using assms by (simp add: list_entry_def truthy_def)

lemma url_safe_sextets:
  "b64_sextets (map (\<lambda>c. if c = CHR ''-'' then CHR ''+'' else if c = CHR ''_'' then CHR ''/'' else c) t)
     = b64_sextets t"
proof (induction t)
  case Nil
  show ?case by simp
next
  case (Cons a t)
  consider "a = CHR ''-''" | "a = CHR ''_''" | "a \<noteq> CHR ''-''" "a \<noteq> CHR ''_''" by blast
  then show ?case
  proof cases
    case 1
    then show ?thesis using Cons by (simp add: unbase64_def)
  next
    case 2
    then show ?thesis using Cons by (simp add: unbase64_def)
  next
    case 3
    then show ?thesis using Cons by (simp split: option.splits)
  qed
qed

text \<open>
  C6, as claimed: decoding fails on every token that is not an output of \<open>encode\<close>. It
  does not. Three tokens as the storage client reports them under \<open>originalfilename\<close>,
  none of them an output of \<open>encode\<close>: \<open>YQ=\<close> has a padding character too few, \<open>Y Q==\<close>
  holds a space, and \<open>/w==\<close> is the byte \<open>0xFF\<close>, which no UTF-8 text contains. The
  listing decodes them to \<open>a\<close>, \<open>a\<close> and U+FFFD.
\<close>

theorem listing_invalid_tokens:
  "listBlobs (memory_sdk lower_case_keys)
     [\<lparr>blob_name = js ''p'', blob_body = [], blob_contentType = js ''text/plain'',
        blob_metadata = [(''originalFilename'', ''YQ='')]\<rparr>,
      \<lparr>blob_name = js ''q'', blob_body = [], blob_contentType = js ''text/plain'',
        blob_metadata = [(''originalFilename'', ''Y Q=='')]\<rparr>,
      \<lparr>blob_name = js ''r'', blob_body = [], blob_contentType = js ''text/plain'',
        blob_metadata = [(''originalFilename'', ''/w=='')]\<rparr>]
     = Inr [\<lparr>entry_name = js ''p'', entry_url = js ''https://store/rag-container/p'',
             originalName = Some ''YQ='', decodedName = Some (js ''a'')\<rparr>,
            \<lparr>entry_name = js ''q'', entry_url = js ''https://store/rag-container/q'',
             originalName = Some ''Y Q=='', decodedName = Some (js ''a'')\<rparr>,
            \<lparr>entry_name = js ''r'', entry_url = js ''https://store/rag-container/r'',
             originalName = Some ''/w=='', decodedName = Some [0xFFFD]\<rparr>] \<and>
   ''YQ='' \<notin> range encode \<and> ''Y Q=='' \<notin> range encode \<and> ''/w=='' \<notin> range encode"
proof -
  have "encode (decode ''YQ='') \<noteq> ''YQ=''" "encode (decode ''Y Q=='') \<noteq> ''Y Q==''"
    "encode (decode ''/w=='') \<noteq> ''/w==''"
    by (simp_all add: codec_eval)
  then have "''YQ='' \<notin> range encode" "''Y Q=='' \<notin> range encode" "''/w=='' \<notin> range encode"
    by (simp_all only: encode_range not_False_eq_True)
  then show ?thesis by (simp add: store_eval codec_eval)
qed

text \<open>
  C6, amended: decoding has no failure and raises no \<open>DecodeError\<close>; it accepts every
  token. On an output of \<open>encode\<close> it gives the encoded string back, with U+FFFD for
  each unpaired surrogate, so it is the exact inverse on well-formed names. In any
  token, a character outside the base64 alphabet is skipped, except that \<open>-\<close> and \<open>_\<close>
  count as \<open>+\<close> and \<open>/\<close>; everything from the first \<open>=\<close> on is ignored; a byte that cannot
  begin a UTF-8 character, and a first byte with nothing after it, decode to U+FFFD.
  In the listing, every non-empty token found under \<open>originalfilename\<close> gives an entry
  whose \<open>decodedName\<close> is the decoding of the token, never null.
\<close>

theorem decode_lenient:
  "decode (encode x) = toWellFormed x \<and>
   (\<not> base64_alphabet c \<and> c \<noteq> CHR ''-'' \<and> c \<noteq> CHR ''_'' \<longrightarrow>
      decode (xs @ c # ys) = decode (xs @ ys)) \<and>
   decode (map (\<lambda>c. if c = CHR ''-'' then CHR ''+'' else if c = CHR ''_'' then CHR ''/'' else c) t)
     = decode t \<and>
   decode t = decode (takeWhile (\<lambda>c. c \<noteq> CHR ''='') t) \<and>
   ((0x80 \<le> b \<and> b < 0xC2) \<or> 0xF4 < b \<longrightarrow> utf8_decode (b # bs) = 0xFFFD # utf8_decode bs) \<and>
   (0xC2 \<le> b \<and> b \<le> 0xF4 \<longrightarrow> utf8_decode [b] = [0xFFFD]) \<and>
   (getBlobMetadata sdk st n = Inr m \<and> property m ''originalfilename'' = Some tok \<and> tok \<noteq> []
      \<longrightarrow> (\<exists>e. list_entry sdk st n = Inr e \<and> decodedName e = Some (decode tok)))"
proof (intro conjI impI)
  show "decode (encode x) = toWellFormed x" by (rule decode_encode)
next
  assume "\<not> base64_alphabet c \<and> c \<noteq> CHR ''-'' \<and> c \<noteq> CHR ''_''"
  then have "unbase64 c = None" "c \<noteq> CHR ''=''"
    by (simp_all add: unbase64_outside not_pad_outside)
  then show "decode (xs @ c # ys) = decode (xs @ ys)"
    by (simp add: decode_def base64_decode_def b64_sextets_skip)
next
  show "decode (map (\<lambda>c. if c = CHR ''-'' then CHR ''+'' else if c = CHR ''_'' then CHR ''/'' else c) t)
     = decode t"
    by (simp only: decode_def base64_decode_def url_safe_sextets)
next
  show "decode t = decode (takeWhile (\<lambda>c. c \<noteq> CHR ''='') t)"
    using b64_sextets_stop [of t] by (simp add: decode_def base64_decode_def)
next
  assume "(0x80 \<le> b \<and> b < 0xC2) \<or> 0xF4 < b"
  then show "utf8_decode (b # bs) = 0xFFFD # utf8_decode bs" by (rule utf8_decode_stray)
next
  assume "0xC2 \<le> b \<and> b \<le> 0xF4"
  then show "utf8_decode [b] = [0xFFFD]" by (simp add: utf8_decode_truncated)
next
  assume "getBlobMetadata sdk st n = Inr m \<and> property m ''originalfilename'' = Some tok \<and> tok \<noteq> []"
  then obtain e where "list_entry sdk st n = Inr e" "decodedName e = Some (decode tok)"
    using list_entry_token [of sdk st n m tok] by blast
  then show "\<exists>e. list_entry sdk st n = Inr e \<and> decodedName e = Some (decode tok)" by blast
qed

theorem decode_lenient_witness:
  "decode ''Y Q=='' = js ''a'' \<and> decode ''YQ'' = js ''a'' \<and>
   utf8_decode [0xFF, 0x61] = [0xFFFD, 0x61] \<and>
   (\<exists>e. list_entry (memory_sdk lower_case_keys)
          [\<lparr>blob_name = js ''r'', blob_body = [], blob_contentType = js ''text/plain'',
             blob_metadata = [(''originalFilename'', ''/w=='')]\<rparr>] (js ''r'') = Inr e \<and>
        decodedName e = Some [0xFFFD])"
proof -
  let ?st = "[\<lparr>blob_name = js ''r'', blob_body = [], blob_contentType = js ''text/plain'',
             blob_metadata = [(''originalFilename'', ''/w=='')]\<rparr>]"
  note inst = decode_lenient [where c = "CHR '' ''" and xs = "''Y''" and ys = "''Q==''"
      and t = "''YQ==''" and b = "0xFF" and bs = "[0x61]"
      and sdk = "memory_sdk lower_case_keys" and st = "?st" and n = "js ''r''"
      and m = "Some [(''originalfilename'', ''/w=='')]" and tok = "''/w==''"]
  have h1: "\<not> base64_alphabet (CHR '' '') \<and> CHR '' '' \<noteq> CHR ''-'' \<and> CHR '' '' \<noteq> CHR ''_''"
    by (simp add: base64_alphabet_def)
  have h2: "(0x80 \<le> (0xFF::nat) \<and> (0xFF::nat) < 0xC2) \<or> 0xF4 < (0xFF::nat)" by simp
  have h3: "getBlobMetadata (memory_sdk lower_case_keys) ?st (js ''r'')
        = Inr (Some [(''originalfilename'', ''/w=='')]) \<and>
      property (Some [(''originalfilename'', ''/w=='')]) ''originalfilename'' = Some ''/w=='' \<and>
      ''/w=='' \<noteq> []"
    by (simp add: store_eval codec_eval)
  from inst h1 have a: "decode ''Y Q=='' = decode ''YQ==''" by simp
  from inst have b: "decode ''YQ=='' = decode ''YQ''" by simp
  from inst h2 have c: "utf8_decode [0xFF, 0x61] = 0xFFFD # utf8_decode [0x61]" by simp
  from inst h3 obtain e where e: "list_entry (memory_sdk lower_case_keys) ?st (js ''r'') = Inr e"
    "decodedName e = Some (decode ''/w=='')" by blast
  have "decode ''YQ=='' = js ''a''" "decode ''/w=='' = [0xFFFD]" "utf8_decode [0x61] = [0x61]"
    by (simp_all add: codec_eval)
  with a b c e show ?thesis by auto
qed

text \<open>
  C10. In every entry of a listing, \<open>originalName\<close> and \<open>decodedName\<close> are both null or
  both set. When set, \<open>originalName\<close> is the base64 token as the metadata holds it under
  \<open>originalfilename\<close>, \<open>decodedName\<close> is the decoding of that token, and the file list,
  which prefers \<open>originalName\<close>, shows the token.
\<close>

theorem listBlobs_entry_names:
  assumes "listBlobs c st = Inr es" and "e \<in> set es"
  shows "(originalName e = None \<and> decodedName e = None) \<or>
         (\<exists>m t. getBlobMetadata c st (entry_name e) = Inr m \<and>
            property m ''originalfilename'' = Some t \<and> t \<noteq> [] \<and>
            originalName e = Some t \<and> decodedName e = Some (decode t) \<and>
            displayed_name e = js t)"
proof -
  from listBlobs_Inr [OF assms(1)] obtain names where
    "list_all2 (\<lambda>n e. list_entry c st n = Inr e) names es" by blast
  from list_entry_fields [OF list_all2_entry_member [OF this assms(2)]]
  obtain m where m: "getBlobMetadata c st (entry_name e) = Inr m"
    and o: "originalName e = (if truthy (property m ''originalfilename'')
                              then property m ''originalfilename'' else None)"
    and d: "decodedName e = (if truthy (property m ''originalfilename'')
                             then map_option decode (property m ''originalfilename'') else None)"
    by (elim exE conjE)
  show ?thesis
  proof (cases "truthy (property m ''originalfilename'')")
    case False
    then show ?thesis by (simp add: o d)
  next
    case True
    then obtain t where t: "property m ''originalfilename'' = Some t" "t \<noteq> []"
      by (auto simp: truthy_def split: option.splits)
    have "originalName e = Some t" "decodedName e = Some (decode t)"
      using True t by (simp_all add: o d)
    moreover from this have "displayed_name e = js t"
      using t(2) by (simp add: displayed_name_def truthy_def)
    ultimately show ?thesis using m t by blast
  qed
qed

theorem listBlobs_entry_names_witness:
  "listBlobs (memory_sdk Some)
     [\<lparr>blob_name = js ''f.t'', blob_body = [], blob_contentType = js ''text/plain'',
        blob_metadata = [(''originalfilename'', ''4LiX4LiULnQ='')]\<rparr>]
     = Inr [\<lparr>entry_name = js ''f.t'', entry_url = js ''https://store/rag-container/f.t'',
             originalName = Some ''4LiX4LiULnQ='',
             decodedName = Some [0x0E17, 0x0E14, 0x2E, 0x74]\<rparr>] \<and>
   displayed_name \<lparr>entry_name = js ''f.t'', entry_url = js ''https://store/rag-container/f.t'',
             originalName = Some ''4LiX4LiULnQ='',
             decodedName = Some [0x0E17, 0x0E14, 0x2E, 0x74]\<rparr> = js ''4LiX4LiULnQ=''"
proof -
  let ?e = "\<lparr>entry_name = js ''f.t'', entry_url = js ''https://store/rag-container/f.t'',
             originalName = Some ''4LiX4LiULnQ='',
             decodedName = Some [0x0E17, 0x0E14, 0x2E, 0x74]\<rparr>"
  have h1: "listBlobs (memory_sdk Some)
     [\<lparr>blob_name = js ''f.t'', blob_body = [], blob_contentType = js ''text/plain'',
        blob_metadata = [(''originalfilename'', ''4LiX4LiULnQ='')]\<rparr>] = Inr [?e]"
    by (simp add: store_eval codec_eval)
  have h2: "?e \<in> set [?e]" by simp
  from listBlobs_entry_names [OF h1 h2] have "displayed_name ?e = js ''4LiX4LiULnQ=''"
    by auto
  then show ?thesis using h1 by simp
qed

section \<open>When the storage key is ASCII\<close>

lemma ascii_js: "list_all (\<lambda>c. (of_char c :: nat) \<le> 0x7F) s \<Longrightarrow>
  list_all (\<lambda>u. unat u \<le> 0x7F) (js s)"
proof (induction s)
  case Nil
  show ?case by (simp add: js_def)
next
  case (Cons c s)
  then have c: "(of_char c :: nat) \<le> 0x7F" by simp
  then have "unat (of_nat (of_char c) :: 16 word) = of_char c" by (simp add: unat_of_nat)
  then show ?case using Cons c by (simp add: js_def)
qed

lemma ascii_digit: "d < 10 \<Longrightarrow> unat (of_nat (48 + d) :: 16 word) \<le> 0x7F"
proof -
  assume d: "d < 10"
  have "unat (of_nat (48 + d) :: 16 word) = (48 + d) mod 2 ^ LENGTH(16)"
    by (rule unat_of_nat)
  then show ?thesis using d by simp
qed

lemma ascii_show_nat: "list_all (\<lambda>u. unat u \<le> 0x7F) (show_nat n)"
proof (induction n rule: show_nat.induct)
  case (1 n)
  show ?case
  proof (cases "n < 10")
    case True
    then show ?thesis using ascii_digit [of n] by (subst show_nat.simps) simp
  next
    case False
    have "n mod 10 < 10" by simp
    then have "unat (of_nat (48 + n mod 10) :: 16 word) \<le> 0x7F" by (rule ascii_digit)
    then show ?thesis using False 1 [OF False] by (subst show_nat.simps) simp
  qed
qed

lemma ascii_show_int: "list_all (\<lambda>u. unat u \<le> 0x7F) (show_int i)"
  by (simp add: show_int_def ascii_show_nat)

lemma ascii_substring:
  "list_all (\<lambda>u. unat u \<le> 0x7F) s \<Longrightarrow> list_all (\<lambda>u. unat u \<le> 0x7F) (substring s i j)"
  unfolding substring_def Let_def list_all_iff
  by (meson in_set_dropD in_set_takeD)

text \<open>
  With a random token of digits and letters, the storage key is ASCII exactly when the
  extension of the declared name is.
\<close>

lemma safeBlobName_ascii:
  assumes "list_all (\<lambda>u. unat u \<le> 0x7F) (random36 e)"
  shows "list_all (\<lambda>u. unat u \<le> 0x7F) (safeBlobName e filePath)
           \<longleftrightarrow> list_all (\<lambda>u. unat u \<le> 0x7F) (extension filePath)"
proof (cases "hasNonAsciiChars filePath")
  case True
  have "list_all (\<lambda>u. unat u \<le> 0x7F) (js ''file-'')" "list_all (\<lambda>u. unat u \<le> 0x7F) (js ''-'')"
    by (rule ascii_js, simp)+
  then show ?thesis
    using True ascii_show_int [of "now e"] ascii_substring [OF assms, of 2 15]
    by (simp add: safeBlobName_def randomId_def)
next
  case False
  then have a: "list_all (\<lambda>u. unat u \<le> 0x7F) filePath" by (simp add: hasNonAsciiChars_iff)
  have "set (extension filePath) \<subseteq> set filePath"
    by (auto simp: extension_def substring_from_def dest: in_set_dropD)
  then have "list_all (\<lambda>u. unat u \<le> 0x7F) (extension filePath)"
    using a by (auto simp: list_all_iff)
  then show ?thesis using False a by (simp add: safeBlobName_def)
qed

section \<open>A store that lower-cases metadata keys\<close>

text \<open>
  Over the storage client the listing finds the token and \<open>getOriginalFileName\<close> does
  not.
\<close>

lemma upload_then_list_lower_case:
  "listBlobs (memory_sdk lower_case_keys)
     (fst (uploadFileToBlob (memory_sdk lower_case_keys)
        \<lparr>now = 1700000000000, random36 = js ''0.4fzyo82mvyr'', isoNow = ''2023-11-14''\<rparr>
        [] (js ''report.pdf'') [37, 80] (js ''application/pdf'')))
     = Inr [\<lparr>entry_name = js ''report.pdf'',
             entry_url = js ''https://store/rag-container/report.pdf'',
             originalName = Some ''cmVwb3J0LnBkZg=='', decodedName = Some (js ''report.pdf'')\<rparr>] \<and>
   getOriginalFileName (memory_sdk lower_case_keys)
     (fst (uploadFileToBlob (memory_sdk lower_case_keys)
        \<lparr>now = 1700000000000, random36 = js ''0.4fzyo82mvyr'', isoNow = ''2023-11-14''\<rparr>
        [] (js ''report.pdf'') [37, 80] (js ''application/pdf''))) (js ''report.pdf'')
     = None"
  by (simp add: store_eval key_eval codec_eval)

end
